theory Spec2Isabelle
  imports Complex_Main "HOL-Library.Word"
begin

unbundle bit_operations_syntax

section \<open>Bytes, errors and files\<close>

text \<open>
  Fixed-width integers are words; \<open>binary.LittleEndian\<close> writes the low byte first.
  \<open>le_encode n w\<close> is the \<open>n\<close> low bytes of \<open>w\<close>, \<open>le_decode\<close> reads them back.
\<close>

type_synonym byte = "8 word"

fun le_encode :: "nat \<Rightarrow> 'a::len word \<Rightarrow> byte list" where
  "le_encode 0 w = []"
| "le_encode (Suc n) w = ucast w # le_encode n (drop_bit 8 w)"

fun le_decode :: "byte list \<Rightarrow> 'a::len word" where
  "le_decode [] = 0"
| "le_decode (b # bs) = ucast b OR push_bit 8 (le_decode bs)"

definition PutUint16 :: "16 word \<Rightarrow> byte list" where
  "PutUint16 v = le_encode 2 v"

definition PutUint32 :: "32 word \<Rightarrow> byte list" where
  "PutUint32 v = le_encode 4 v"

definition PutUint64 :: "64 word \<Rightarrow> byte list" where
  "PutUint64 v = le_encode 8 v"

definition Uint16 :: "byte list \<Rightarrow> 16 word" where
  "Uint16 b = le_decode (take 2 b)"

definition Uint32 :: "byte list \<Rightarrow> 32 word" where
  "Uint32 b = le_decode (take 4 b)"

definition Uint64 :: "byte list \<Rightarrow> 64 word" where
  "Uint64 b = le_decode (take 8 b)"

text \<open>The conversions \<open>[]byte(s)\<close> and \<open>string(b)\<close>.\<close>

definition bytes_of_string :: "string \<Rightarrow> byte list" where
  "bytes_of_string s = map (\<lambda>c. of_nat (of_char c)) s"

definition string_of_bytes :: "byte list \<Rightarrow> string" where
  "string_of_bytes b = map (\<lambda>x. char_of (unat x)) b"

text \<open>
  Errors are values. \<open>Wrapped msg e\<close> is \<open>fmt.Errorf("msg: %w", e)\<close>; the other
  constructors stand for the errors of the library (\<open>io.EOF\<close>, \<open>io.ErrUnexpectedEOF\<close>,
  a seek before the start of the file, a write beyond the largest file offset, an error
  of \<open>encoding/json\<close>, and \<open>encoding/binary\<close>'s refusal of a value that is not of
  fixed size) and for the errors the repository creates.
\<close>

datatype error =
    EOF
  | ErrUnexpectedEOF
  | InvalidArgument
  | FileTooLarge
  | JSONError
  | NotFixedSize
  | InvalidMagic
  | InvalidFieldType string
  | SegmentDocumentNotFound string string
  | DocumentNotFound string
  | SchemaValidationError string string string string
  | NoSegmentsAvailable
  | Wrapped string error

text \<open>
  A file open for reading and writing: its bytes and the offset of the handle. File
  offsets are \<open>int64\<close>, so no write extends a file beyond \<open>2^63 - 1\<close> bytes; other
  failures of the operating system (a full disk, a medium error) are not modelled.
  \<open>file_Write\<close> writes at the offset, over the bytes that are there, filling a gap
  after the end of the file with zeros. \<open>file_ReadFull\<close> is \<open>io.ReadFull\<close>, which
  \<open>binary.Read\<close> uses as well: \<open>EOF\<close> when no byte is left, \<open>ErrUnexpectedEOF\<close>
  when fewer than \<open>n\<close> are.
\<close>

record os_File =
  content :: "byte list"
  pos :: nat

definition max_offset :: nat where
  "max_offset = 2 ^ 63 - 1"

definition file_Size :: "os_File \<Rightarrow> nat" where
  "file_Size f = length (content f)"

definition file_Write :: "os_File \<Rightarrow> byte list \<Rightarrow> error + os_File" where
  "file_Write f bs =
     (if pos f + length bs > max_offset then Inl FileTooLarge
      else Inr (f\<lparr>content := take (pos f) (content f) @ replicate (pos f - length (content f)) 0
                              @ bs @ drop (pos f + length bs) (content f),
                  pos := pos f + length bs\<rparr>))"

definition file_ReadFull :: "os_File \<Rightarrow> nat \<Rightarrow> error + (byte list \<times> os_File)" where
  "file_ReadFull f n =
     (if n = 0 then Inr ([], f)
      else if length (content f) \<le> pos f then Inl EOF
      else if length (content f) < pos f + n then Inl ErrUnexpectedEOF
      else Inr (take n (drop (pos f) (content f)), f\<lparr>pos := pos f + n\<rparr>))"

text \<open>\<open>Seek(offset, io.SeekStart)\<close> and \<open>Seek(0, io.SeekEnd)\<close>.\<close>

definition file_Seek :: "os_File \<Rightarrow> int \<Rightarrow> error + os_File" where
  "file_Seek f offset = (if offset < 0 then Inl InvalidArgument else Inr (f\<lparr>pos := nat offset\<rparr>))"

definition file_SeekEnd :: "os_File \<Rightarrow> os_File" where
  "file_SeekEnd f = f\<lparr>pos := length (content f)\<rparr>"

text \<open>\<open>Truncate(n)\<close> cuts the file or extends it with zeros; the offset stays.\<close>

definition file_Truncate :: "os_File \<Rightarrow> int \<Rightarrow> error + os_File" where
  "file_Truncate f n =
     (if n < 0 then Inl InvalidArgument
      else Inr (f\<lparr>content := take (nat n) (content f)
                              @ replicate (nat n - length (content f)) 0\<rparr>))"

section \<open>Documents and schemas (package types)\<close>

text \<open>
  \<open>FieldType\<close> is a string type with six named values. \<open>FieldValue\<close> is an
  interface (\<open>Type\<close> and \<open>String\<close>): a value of it is one of the six carrier structs,
  held by value, or a value of any other type with these methods (a pointer to a carrier
  struct, a type of another package), an \<open>OtherValue\<close>, which is given by what its
  \<open>Type\<close> method returns and by the JSON value that \<open>encoding/json\<close> writes for it.
  (A \<open>nil\<close> interface value or \<open>nil\<close> pointer, on which the methods panic, is no
  field value of the model.)
  \<open>float64\<close> and \<open>float32\<close> values are modelled as
  \<open>real\<close> (the finite ones are reals; \<open>encoding/json\<close> rejects the others), and a
  \<open>time.Time\<close> as the RFC 3339 text that \<open>encoding/json\<close> writes for it, so that
  equality of documents in the model is equality up to the JSON round trip of the
  values. A Go map that is ranged over is the list of its entries.
\<close>

type_synonym FieldType = string

definition FieldTypeText :: FieldType where "FieldTypeText = ''text''"
definition FieldTypeKeyword :: FieldType where "FieldTypeKeyword = ''keyword''"
definition FieldTypeNumeric :: FieldType where "FieldTypeNumeric = ''numeric''"
definition FieldTypeVector :: FieldType where "FieldTypeVector = ''vector''"
definition FieldTypeBoolean :: FieldType where "FieldTypeBoolean = ''boolean''"
definition FieldTypeDate :: FieldType where "FieldTypeDate = ''date''"

text \<open>JSON values, as \<open>encoding/json\<close> reads and writes them.\<close>

datatype json =
    JNull
  | JBool bool
  | JNumber real
  | JString string
  | JArray "json list"
  | JObject "(string \<times> json) list"

datatype FieldValue =
    TextValue string
  | KeywordValue string
  | NumericValue real
  | VectorValue "real list" int
  | BooleanValue bool
  | DateValue string
  | OtherValue FieldType json

fun FieldValue_Type :: "FieldValue \<Rightarrow> FieldType" where
  "FieldValue_Type (TextValue v) = FieldTypeText"
| "FieldValue_Type (KeywordValue v) = FieldTypeKeyword"
| "FieldValue_Type (NumericValue v) = FieldTypeNumeric"
| "FieldValue_Type (VectorValue v vdim) = FieldTypeVector"
| "FieldValue_Type (BooleanValue v) = FieldTypeBoolean"
| "FieldValue_Type (DateValue v) = FieldTypeDate"
| "FieldValue_Type (OtherValue fieldType j) = fieldType"

record Document =
  ID :: string
  Fields :: "(string \<times> FieldValue) list"
  Version :: int
  Created :: string
  Updated :: string

record FieldDef =
  Type :: FieldType
  Indexed :: bool
  Stored :: bool
  Analyzed :: bool
  VectorDim :: int
  Boost :: real
  Description :: string

record Schema =
  Name :: string
  schema_Fields :: "string \<rightharpoonup> FieldDef"
  PrimaryKey :: string
  schema_Created :: int
  schema_Version :: int

text \<open>
  \<open>ValidateDocument\<close>: the loop over the fields of the document, in the order of the
  list; \<open>None\<close> for \<open>nil\<close>. The error carries \<open>Field\<close>, \<open>Expected\<close>, \<open>Actual\<close>
  and \<open>Message\<close>. The type assertion \<open>value.(VectorValue)\<close> holds of a
  \<open>VectorValue\<close> held by value and of nothing else.
\<close>

fun ValidateDocument_loop :: "Schema \<Rightarrow> (string \<times> FieldValue) list \<Rightarrow> error option" where
  "ValidateDocument_loop s [] = None"
| "ValidateDocument_loop s ((name, v) # rest) =
     (case schema_Fields s name of
        Some def \<Rightarrow>
          if FieldValue_Type v \<noteq> Type def
          then Some (SchemaValidationError name (Type def) (FieldValue_Type v) [])
          else if Type def = FieldTypeVector then
            (case v of
               VectorValue vec vdim \<Rightarrow>
                 if vdim \<noteq> VectorDim def
                 then Some (SchemaValidationError name [] [] ''vector dimension mismatch'')
                 else ValidateDocument_loop s rest
             | _ \<Rightarrow> ValidateDocument_loop s rest)
          else ValidateDocument_loop s rest
      | None \<Rightarrow> ValidateDocument_loop s rest)"

definition ValidateDocument :: "Schema \<Rightarrow> Document \<Rightarrow> error option" where
  "ValidateDocument s doc = ValidateDocument_loop s (Fields doc)"

subsection \<open>The JSON form of a document\<close>

text \<open>
  \<open>encoding/json\<close> is not part of the repository. Its work is split in two: the JSON
  value that the repository's \<open>MarshalJSON\<close> and \<open>UnmarshalJSON\<close> build and read,
  which is modelled here, and the JSON text of a value, which is a parameter (a
  \<open>json_codec\<close>) of the functions that store documents: \<open>Marshal\<close> gives the text of
  a value and \<open>Unmarshal\<close> the value of a text, or \<open>None\<close> when \<open>encoding/json\<close>
  returns an error. Keys of objects are matched as they are written, and an object has
  each key once.
\<close>

record json_codec =
  Marshal :: "json \<Rightarrow> byte list option"
  Unmarshal :: "byte list \<Rightarrow> json option"

text \<open>The carrier structs have no JSON tags: their fields are written under their names.\<close>

fun FieldValue_json :: "FieldValue \<Rightarrow> json" where
  "FieldValue_json (TextValue v) = JObject [(''Value'', JString v)]"
| "FieldValue_json (KeywordValue v) = JObject [(''Value'', JString v)]"
| "FieldValue_json (NumericValue v) = JObject [(''Value'', JNumber v)]"
| "FieldValue_json (VectorValue v vdim) =
     JObject [(''Value'', JArray (map JNumber v)), (''Dim'', JNumber (of_int vdim))]"
| "FieldValue_json (BooleanValue v) = JObject [(''Value'', JBool v)]"
| "FieldValue_json (DateValue v) = JObject [(''Value'', JString v)]"
| "FieldValue_json (OtherValue fieldType j) = j"

definition Document_MarshalJSON :: "Document \<Rightarrow> json" where
  "Document_MarshalJSON d =
     JObject
       [(''id'', JString (ID d)),
        (''version'', JNumber (of_int (Version d))),
        (''created'', JString (Created d)),
        (''updated'', JString (Updated d)),
        (''fields'',
           JObject (map (\<lambda>(k, v). (k, JObject [(''type'', JString (FieldValue_Type v)),
                                                 (''value'', FieldValue_json v)]))
                        (Fields d)))]"

text \<open>
  The body of the loop of \<open>UnmarshalJSON\<close> for one entry \<open>v\<close> of \<open>aux.Fields\<close>, an
  object given by its members: an error when \<open>"type"\<close> is not a string, otherwise the
  field value the \<open>switch\<close> builds, or \<open>None\<close> when it builds none. The \<open>switch\<close> has
  cases for text, keyword, numeric and boolean.
\<close>

definition json_get :: "(string \<times> json) list \<Rightarrow> string \<Rightarrow> json option" where
  "json_get members k = map_of members k"

definition UnmarshalJSON_field :: "string \<Rightarrow> (string \<times> json) list \<Rightarrow> error + FieldValue option" where
  "UnmarshalJSON_field k v =
     (case json_get v ''type'' of
        Some (JString fieldType) \<Rightarrow>
          Inr (if fieldType = FieldTypeText then
                 (case json_get v ''value'' of
                    Some (JObject val) \<Rightarrow>
                      (case json_get val ''Value'' of Some (JString str) \<Rightarrow> Some (TextValue str) | _ \<Rightarrow> None)
                  | Some (JString str) \<Rightarrow> Some (TextValue str)
                  | _ \<Rightarrow> None)
               else if fieldType = FieldTypeKeyword then
                 (case json_get v ''value'' of
                    Some (JObject val) \<Rightarrow>
                      (case json_get val ''Value'' of Some (JString str) \<Rightarrow> Some (KeywordValue str) | _ \<Rightarrow> None)
                  | Some (JString str) \<Rightarrow> Some (KeywordValue str)
                  | _ \<Rightarrow> None)
               else if fieldType = FieldTypeNumeric then
                 (case json_get v ''value'' of
                    Some (JObject val) \<Rightarrow>
                      (case json_get val ''Value'' of Some (JNumber num) \<Rightarrow> Some (NumericValue num) | _ \<Rightarrow> None)
                  | Some (JNumber num) \<Rightarrow> Some (NumericValue num)
                  | _ \<Rightarrow> None)
               else if fieldType = FieldTypeBoolean then
                 (case json_get v ''value'' of
                    Some (JObject val) \<Rightarrow>
                      (case json_get val ''Value'' of Some (JBool b) \<Rightarrow> Some (BooleanValue b) | _ \<Rightarrow> None)
                  | Some (JBool b) \<Rightarrow> Some (BooleanValue b)
                  | _ \<Rightarrow> None)
               else None)
      | _ \<Rightarrow> Inl (InvalidFieldType k))"

text \<open>
  The loop over \<open>aux.Fields\<close>. Every entry must be an object (\<open>null\<close> gives an entry
  without members), or \<open>json.Unmarshal\<close> into \<open>aux\<close> has failed before the loop.
\<close>

fun UnmarshalJSON_fields :: "(string \<times> json) list \<Rightarrow> error + (string \<times> FieldValue) list" where
  "UnmarshalJSON_fields [] = Inr []"
| "UnmarshalJSON_fields ((k, j) # rest) =
     (case (case j of JObject v \<Rightarrow> Inr v | JNull \<Rightarrow> Inr [] | _ \<Rightarrow> Inl JSONError) of
        Inl e \<Rightarrow> Inl e
      | Inr v \<Rightarrow>
          (case UnmarshalJSON_field k v of
             Inl e \<Rightarrow> Inl e
           | Inr fieldValue \<Rightarrow>
               (case UnmarshalJSON_fields rest of
                  Inl e \<Rightarrow> Inl e
                | Inr fvs \<Rightarrow>
                    Inr (case fieldValue of Some fv \<Rightarrow> (k, fv) # fvs | None \<Rightarrow> fvs))))"

text \<open>
  \<open>UnmarshalJSON\<close> on the JSON value of an object: \<open>id\<close>, \<open>created\<close> and \<open>updated\<close>
  are strings, \<open>version\<close> is an integer, \<open>fields\<close> is an object; a member that is
  absent leaves the zero value.
\<close>

definition json_string_member :: "(string \<times> json) list \<Rightarrow> string \<Rightarrow> error + string" where
  "json_string_member members k =
     (case json_get members k of
        None \<Rightarrow> Inr []
      | Some JNull \<Rightarrow> Inr []
      | Some (JString s) \<Rightarrow> Inr s
      | Some _ \<Rightarrow> Inl JSONError)"

definition json_int64_member :: "(string \<times> json) list \<Rightarrow> string \<Rightarrow> error + int" where
  "json_int64_member members k =
     (case json_get members k of
        None \<Rightarrow> Inr 0
      | Some JNull \<Rightarrow> Inr 0
      | Some (JNumber r) \<Rightarrow>
          if r = of_int \<lfloor>r\<rfloor> \<and> - (2 ^ 63) \<le> \<lfloor>r\<rfloor> \<and> \<lfloor>r\<rfloor> < 2 ^ 63 then Inr \<lfloor>r\<rfloor>
          else Inl JSONError
      | Some _ \<Rightarrow> Inl JSONError)"

definition Document_UnmarshalJSON :: "json \<Rightarrow> error + Document" where
  "Document_UnmarshalJSON j =
     (case j of
        JObject members \<Rightarrow>
          (case json_string_member members ''id'' of Inl e \<Rightarrow> Inl e | Inr docid \<Rightarrow>
          (case json_int64_member members ''version'' of Inl e \<Rightarrow> Inl e | Inr version \<Rightarrow>
          (case json_string_member members ''created'' of Inl e \<Rightarrow> Inl e | Inr created \<Rightarrow>
          (case json_string_member members ''updated'' of Inl e \<Rightarrow> Inl e | Inr updated \<Rightarrow>
          (case (case json_get members ''fields'' of
                   None \<Rightarrow> Inr []
                 | Some JNull \<Rightarrow> Inr []
                 | Some (JObject fs) \<Rightarrow> Inr fs
                 | Some _ \<Rightarrow> Inl JSONError) of Inl e \<Rightarrow> Inl e | Inr fs \<Rightarrow>
          (case UnmarshalJSON_fields fs of Inl e \<Rightarrow> Inl e | Inr fvs \<Rightarrow>
             Inr \<lparr>ID = docid, Fields = fvs, Version = version, Created = created,
                  Updated = updated\<rparr>))))))
      | _ \<Rightarrow> Inl JSONError)"

text \<open>
  \<open>json.Marshal(doc)\<close> and \<open>json.Unmarshal(docBytes, &doc)\<close> for a document, through
  the codec.
\<close>

definition json_Marshal_Document :: "json_codec \<Rightarrow> Document \<Rightarrow> error + byte list" where
  "json_Marshal_Document C doc =
     (case Marshal C (Document_MarshalJSON doc) of
        None \<Rightarrow> Inl JSONError
      | Some docBytes \<Rightarrow> Inr docBytes)"

definition json_Unmarshal_Document :: "json_codec \<Rightarrow> byte list \<Rightarrow> error + Document" where
  "json_Unmarshal_Document C docBytes =
     (case Unmarshal C docBytes of
        None \<Rightarrow> Inl JSONError
      | Some j \<Rightarrow> Document_UnmarshalJSON j)"


subsection \<open>Field values that \<open>UnmarshalJSON\<close> rebuilds\<close>

text \<open>
  The \<open>switch\<close> of \<open>UnmarshalJSON\<close> has a case for the types text, keyword, numeric
  and boolean, and in each it looks for a string, a number or a boolean in the member
  \<open>Value\<close> of an object or in the value itself (\<open>value_member\<close>). \<open>decoded v\<close> is
  the field value that comes back for \<open>v\<close>, if any: a text, keyword, numeric or boolean
  carrier comes back as it is, a vector or date carrier does not come back, and another
  value comes back as the carrier that its type and its JSON value make.
  \<open>vector_doc\<close> is a document with a text, a vector and a date field.
\<close>

definition value_member :: "json \<Rightarrow> json option" where
  "value_member j = (case j of JObject val \<Rightarrow> map_of val ''Value'' | _ \<Rightarrow> Some j)"

fun decoded :: "FieldValue \<Rightarrow> FieldValue option" where
  "decoded (TextValue v) = Some (TextValue v)"
| "decoded (KeywordValue v) = Some (KeywordValue v)"
| "decoded (NumericValue v) = Some (NumericValue v)"
| "decoded (BooleanValue v) = Some (BooleanValue v)"
| "decoded (VectorValue v vdim) = None"
| "decoded (DateValue v) = None"
| "decoded (OtherValue fieldType j) =
     (case value_member j of
        Some (JString str) \<Rightarrow>
          if fieldType = FieldTypeText then Some (TextValue str)
          else if fieldType = FieldTypeKeyword then Some (KeywordValue str)
          else None
      | Some (JNumber num) \<Rightarrow> if fieldType = FieldTypeNumeric then Some (NumericValue num) else None
      | Some (JBool b) \<Rightarrow> if fieldType = FieldTypeBoolean then Some (BooleanValue b) else None
      | _ \<Rightarrow> None)"

definition decoded_fields :: "(string \<times> FieldValue) list \<Rightarrow> (string \<times> FieldValue) list" where
  "decoded_fields fs = List.map_filter (\<lambda>(k, v). map_option (Pair k) (decoded v)) fs"

definition vector_doc :: Document where
  "vector_doc =
     \<lparr>ID = ''1'',
      Fields = [(''title'', TextValue ''Hello World''),
                (''embedding'', VectorValue [1, 2] 2),
                (''published'', DateValue ''2024-01-01T00:00:00Z'')],
      Version = 1, Created = ''2024-01-01T00:00:00Z'', Updated = ''2024-01-01T00:00:00Z''\<rparr>"
section \<open>Posting lists (package inverted, posting.go)\<close>

text \<open>
  Go's \<open>int\<close> counters (\<open>TermFreq\<close>, \<open>DocFreq\<close>, positions) are modelled as
  \<open>int\<close>: they count elements of slices held in memory and stay far below \<open>2^63\<close>.
  A Go \<open>string\<close> is a byte sequence, modelled as \<open>string\<close> (a list of 8-bit
  characters).
\<close>

record Posting =
  DocID :: string
  TermFreq :: int
  Positions :: "int list"

record PostingList =
  Postings :: "Posting list"
  DocFreq :: int

definition NewPostingList :: PostingList where
  "NewPostingList = \<lparr>Postings = [], DocFreq = 0\<rparr>"

text \<open>
  The loop of \<open>AddPosting\<close>: the first posting whose \<open>DocID\<close> equals \<open>docID\<close> is
  updated in place and the method returns; \<open>None\<close> when the loop runs to its end.
\<close>

fun AddPosting_loop :: "Posting list \<Rightarrow> string \<Rightarrow> int \<Rightarrow> Posting list option" where
  "AddPosting_loop [] docID position = None"
| "AddPosting_loop (p # ps) docID position =
     (if DocID p = docID
      then Some (p\<lparr>TermFreq := TermFreq p + 1, Positions := Positions p @ [position]\<rparr> # ps)
      else map_option ((#) p) (AddPosting_loop ps docID position))"

definition AddPosting :: "PostingList \<Rightarrow> string \<Rightarrow> int \<Rightarrow> PostingList" where
  "AddPosting pl docID position =
     (case AddPosting_loop (Postings pl) docID position of
        Some ps \<Rightarrow> pl\<lparr>Postings := ps\<rparr>
      | None \<Rightarrow>
          pl\<lparr>Postings := Postings pl @ [\<lparr>DocID = docID, TermFreq = 1, Positions = [position]\<rparr>],
             DocFreq := DocFreq pl + 1\<rparr>)"

fun GetPosting :: "Posting list \<Rightarrow> string \<Rightarrow> Posting option" where
  "GetPosting [] docID = None"
| "GetPosting (p # ps) docID = (if DocID p = docID then Some p else GetPosting ps docID)"

definition GetDocIDs :: "PostingList \<Rightarrow> string list" where
  "GetDocIDs pl = map DocID (Postings pl)"

definition Size :: "PostingList \<Rightarrow> int" where
  "Size pl = int (length (Postings pl))"

text \<open>A posting list after a sequence of \<open>AddPosting\<close> calls on a new list.\<close>

definition AddPostings :: "PostingList \<Rightarrow> (string \<times> int) list \<Rightarrow> PostingList" where
  "AddPostings pl calls = foldl (\<lambda>l (docID, position). AddPosting l docID position) pl calls"

text \<open>The three invariants of a posting list, as one predicate.\<close>

definition posting_list_ok :: "PostingList \<Rightarrow> bool" where
  "posting_list_ok pl \<longleftrightarrow>
     DocFreq pl = int (length (Postings pl)) \<and>
     list_all (\<lambda>p. TermFreq p = int (length (Positions p))) (Postings pl) \<and>
     distinct (map DocID (Postings pl))"

section \<open>Tokenizer and analyzer (package analyzer)\<close>

text \<open>
  The tokenizer walks the runes of the lowercased text. Decoding UTF-8 (what Go's
  \<open>range\<close> over a string does) is written out below; the Unicode tables of Go's library
  (\<open>unicode.IsLetter\<close>, \<open>unicode.IsDigit\<close>, \<open>strings.ToLower\<close>), which are not part of
  the repository, are a parameter \<open>U\<close> of every function that reaches the tokenizer.
\<close>

type_synonym rune = nat

record unicode =
  IsLetter :: "rune \<Rightarrow> bool"
  IsDigit :: "rune \<Rightarrow> bool"
  ToLower :: "string \<Rightarrow> string"

definition RuneError :: rune where
  "RuneError = 0xFFFD"

definition continuation :: "nat \<Rightarrow> nat \<Rightarrow> nat \<Rightarrow> bool" where
  "continuation lo hi b \<longleftrightarrow> lo \<le> b \<and> b \<le> hi"

text \<open>
  \<open>utf8.DecodeRuneInString\<close>: the rune at the head of the string and its width in
  bytes; an invalid or truncated encoding is \<open>RuneError\<close> of width 1.
\<close>

definition DecodeRuneInString :: "string \<Rightarrow> rune \<times> nat" where
  "DecodeRuneInString s =
     (case map of_char s of
        [] \<Rightarrow> (RuneError, 0)
      | b0 # bs \<Rightarrow>
          if b0 < 0x80 then (b0, 1)
          else if 0xC2 \<le> b0 \<and> b0 \<le> 0xDF then
            (case bs of
               b1 # _ \<Rightarrow>
                 if continuation 0x80 0xBF b1 then ((b0 mod 32) * 64 + b1 mod 64, 2)
                 else (RuneError, 1)
             | _ \<Rightarrow> (RuneError, 1))
          else if 0xE0 \<le> b0 \<and> b0 \<le> 0xEF then
            (case bs of
               b1 # b2 # _ \<Rightarrow>
                 if continuation (if b0 = 0xE0 then 0xA0 else 0x80) (if b0 = 0xED then 0x9F else 0xBF) b1
                    \<and> continuation 0x80 0xBF b2
                 then (((b0 mod 16) * 64 + b1 mod 64) * 64 + b2 mod 64, 3)
                 else (RuneError, 1)
             | _ \<Rightarrow> (RuneError, 1))
          else if 0xF0 \<le> b0 \<and> b0 \<le> 0xF4 then
            (case bs of
               b1 # b2 # b3 # _ \<Rightarrow>
                 if continuation (if b0 = 0xF0 then 0x90 else 0x80) (if b0 = 0xF4 then 0x8F else 0xBF) b1
                    \<and> continuation 0x80 0xBF b2 \<and> continuation 0x80 0xBF b3
                 then ((((b0 mod 8) * 64 + b1 mod 64) * 64 + b2 mod 64) * 64 + b3 mod 64, 4)
                 else (RuneError, 1)
             | _ \<Rightarrow> (RuneError, 1))
          else (RuneError, 1))"

text \<open>
  \<open>for i, r := range text\<close>: the byte offset and the rune of every step, with the
  bytes \<open>WriteRune(r)\<close> appends (the rune's own encoding; for \<open>RuneError\<close> read from
  an invalid byte, the three bytes of U+FFFD). The second argument counts the bytes of
  the current rune still to be skipped.
\<close>

fun range_string :: "nat \<Rightarrow> nat \<Rightarrow> string \<Rightarrow> (nat \<times> rune \<times> string) list" where
  "range_string i skip [] = []"
| "range_string i (Suc skip) (c # cs) = range_string (Suc i) skip cs"
| "range_string i 0 (c # cs) =
     (case DecodeRuneInString (c # cs) of
        (r, w) \<Rightarrow>
          (i, r, if r = RuneError \<and> w = 1 then [CHR 0xEF, CHR 0xBF, CHR 0xBD]
                 else take w (c # cs))
          # range_string (Suc i) (w - 1) cs)"

fun Tokenize_loop :: "unicode \<Rightarrow> (nat \<times> rune \<times> string) list \<Rightarrow> string list \<Rightarrow> string \<Rightarrow> string list" where
  "Tokenize_loop U [] tokens current =
     (if length current > 0 then tokens @ [current] else tokens)"
| "Tokenize_loop U ((i, r, bytes) # rs) tokens current =
     (if IsLetter U r \<or> IsDigit U r then Tokenize_loop U rs tokens (current @ bytes)
      else if length current > 0 then Tokenize_loop U rs (tokens @ [current]) []
      else Tokenize_loop U rs tokens current)"

definition Tokenize :: "unicode \<Rightarrow> string \<Rightarrow> string list" where
  "Tokenize U text = Tokenize_loop U (range_string 0 0 (ToLower U text)) [] []"

fun TokenizeWithPositions_loop ::
  "unicode \<Rightarrow> (nat \<times> rune \<times> string) list \<Rightarrow> string list \<Rightarrow> int list \<Rightarrow> string \<Rightarrow> int
   \<Rightarrow> string list \<times> int list" where
  "TokenizeWithPositions_loop U [] tokens positions current position =
     (if length current > 0 then (tokens @ [current], positions @ [position])
      else (tokens, positions))"
| "TokenizeWithPositions_loop U ((i, r, bytes) # rs) tokens positions current position =
     (if IsLetter U r \<or> IsDigit U r then
        TokenizeWithPositions_loop U rs tokens positions (current @ bytes)
          (if length current = 0 then int i else position)
      else if length current > 0 then
        TokenizeWithPositions_loop U rs (tokens @ [current]) (positions @ [position]) [] position
      else TokenizeWithPositions_loop U rs tokens positions current position)"

definition TokenizeWithPositions :: "unicode \<Rightarrow> string \<Rightarrow> string list \<times> int list" where
  "TokenizeWithPositions U text =
     TokenizeWithPositions_loop U (range_string 0 0 (ToLower U text)) [] [] [] 0"

definition StopWords :: "string \<Rightarrow> bool" where
  "StopWords token \<longleftrightarrow> token \<in> set
     [''a'', ''an'', ''and'', ''are'', ''as'',
      ''at'', ''be'', ''by'', ''for'', ''from'',
      ''has'', ''he'', ''in'', ''is'', ''it'',
      ''its'', ''of'', ''on'', ''that'', ''the'',
      ''to'', ''was'', ''were'', ''will'', ''with'']"

record Analyzer =
  useStopWords :: bool
  useStemming :: bool

definition NewAnalyzer :: Analyzer where
  "NewAnalyzer = \<lparr>useStopWords = True, useStemming = False\<rparr>"

definition NewAnalyzerWithOptions :: "bool \<Rightarrow> bool \<Rightarrow> Analyzer" where
  "NewAnalyzerWithOptions sw st = \<lparr>useStopWords = sw, useStemming = st\<rparr>"

definition filterStopWords :: "string list \<Rightarrow> string list" where
  "filterStopWords tokens = filter (\<lambda>token. \<not> StopWords token) tokens"

text \<open>
  \<open>positions[i]\<close> for every token: the two slices come from the tokenizer with equal
  lengths, so the last equation (an index out of range, a panic in Go) is not reached.
\<close>

fun filterStopWordsWithPositions :: "string list \<Rightarrow> int list \<Rightarrow> string list \<times> int list" where
  "filterStopWordsWithPositions [] positions = ([], [])"
| "filterStopWordsWithPositions (token # tokens) (p # positions) =
     (case filterStopWordsWithPositions tokens positions of
        (ft, fp) \<Rightarrow> if \<not> StopWords token then (token # ft, p # fp) else (ft, fp))"
| "filterStopWordsWithPositions (token # tokens) [] = ([], [])"

definition HasSuffix :: "string \<Rightarrow> string \<Rightarrow> bool" where
  "HasSuffix s suffix \<longleftrightarrow>
     length s \<ge> length suffix \<and> drop (length s - length suffix) s = suffix"

definition stemWord :: "string \<Rightarrow> string" where
  "stemWord word =
     (if length word > 3 then
        (if HasSuffix word ''ing'' then take (length word - 3) word
         else if HasSuffix word ''ed'' then take (length word - 2) word
         else if HasSuffix word ''s'' \<and> length word > 1 then take (length word - 1) word
         else word)
      else word)"

definition stem :: "string list \<Rightarrow> string list" where
  "stem tokens = map stemWord tokens"

definition Analyze :: "unicode \<Rightarrow> Analyzer \<Rightarrow> string \<Rightarrow> string list" where
  "Analyze U a text =
     (let tokens = Tokenize U text;
          tokens = (if useStopWords a then filterStopWords tokens else tokens);
          tokens = (if useStemming a then stem tokens else tokens)
      in tokens)"

definition AnalyzeWithPositions :: "unicode \<Rightarrow> Analyzer \<Rightarrow> string \<Rightarrow> string list \<times> int list" where
  "AnalyzeWithPositions U a text =
     (case TokenizeWithPositions U text of
        (tokens, positions) \<Rightarrow>
          if useStopWords a then filterStopWordsWithPositions tokens positions
          else (tokens, positions))"

text \<open>
  The ASCII part of Go's Unicode tables, for evaluating the model on ASCII text: there
  the letters are \<open>A-Z\<close> and \<open>a-z\<close>, the digits \<open>0-9\<close>, and \<open>strings.ToLower\<close> maps
  \<open>A-Z\<close> to \<open>a-z\<close>. It says nothing about runes beyond U+007F.
\<close>

definition ascii_lower :: "char \<Rightarrow> char" where
  "ascii_lower c =
     (case map_of (zip ''ABCDEFGHIJKLMNOPQRSTUVWXYZ'' ''abcdefghijklmnopqrstuvwxyz'') c of
        Some l \<Rightarrow> l
      | None \<Rightarrow> c)"

definition ascii_unicode :: unicode where
  "ascii_unicode =
     \<lparr>IsLetter = (\<lambda>r. (65 \<le> r \<and> r \<le> 90) \<or> (97 \<le> r \<and> r \<le> 122)),
      IsDigit = (\<lambda>r. 48 \<le> r \<and> r \<le> 57),
      ToLower = map ascii_lower\<rparr>"

section \<open>Inverted index (package inverted, index.go)\<close>

text \<open>
  The term dictionary is a Go map, modelled as a partial function. A \<open>range\<close> over a
  Go map visits the keys in an order the runtime chooses anew for every loop; the
  functions that range over the field names take that order as an argument, and
  \<open>range_order\<close> says that a list is such an order for a given key set.
\<close>

record InvertedIndex =
  termDict :: "string \<rightharpoonup> PostingList"
  analyzer :: Analyzer
  totalTerms :: int
  totalDocs :: int

definition NewInvertedIndex :: InvertedIndex where
  "NewInvertedIndex = \<lparr>termDict = Map.empty, analyzer = NewAnalyzer, totalTerms = 0, totalDocs = 0\<rparr>"

definition NewInvertedIndexWithAnalyzer :: "Analyzer \<Rightarrow> InvertedIndex" where
  "NewInvertedIndexWithAnalyzer a = \<lparr>termDict = Map.empty, analyzer = a, totalTerms = 0, totalDocs = 0\<rparr>"

definition range_order :: "'a set \<Rightarrow> 'a list \<Rightarrow> bool" where
  "range_order keys order \<longleftrightarrow> set order = keys \<and> distinct order"

fun IndexDocument_loop ::
  "InvertedIndex \<Rightarrow> string \<Rightarrow> string \<Rightarrow> string list \<Rightarrow> int list \<Rightarrow> InvertedIndex" where
  "IndexDocument_loop idx docID fieldName [] positions = idx"
| "IndexDocument_loop idx docID fieldName (token # tokens) (p # positions) =
     (let termKey = fieldName @ '':'' @ token;
          postingList = (case termDict idx termKey of Some pl \<Rightarrow> pl | None \<Rightarrow> NewPostingList)
      in IndexDocument_loop
           (idx\<lparr>termDict := (termDict idx)(termKey \<mapsto> AddPosting postingList docID p),
                totalTerms := totalTerms idx + 1\<rparr>)
           docID fieldName tokens positions)"
| "IndexDocument_loop idx docID fieldName (token # tokens) [] = idx"

definition IndexDocument :: "unicode \<Rightarrow> InvertedIndex \<Rightarrow> string \<Rightarrow> string \<Rightarrow> string \<Rightarrow> InvertedIndex" where
  "IndexDocument U idx docID fieldName text =
     (case AnalyzeWithPositions U (analyzer idx) text of
        (tokens, positions) \<Rightarrow>
          (let idx' = IndexDocument_loop idx docID fieldName tokens positions
           in idx'\<lparr>totalDocs := totalDocs idx' + 1\<rparr>))"

fun indexOf_from :: "nat \<Rightarrow> string \<Rightarrow> char \<Rightarrow> int" where
  "indexOf_from i [] c = - 1"
| "indexOf_from i (x # xs) c = (if x = c then int i else indexOf_from (Suc i) xs c)"

definition indexOf :: "string \<Rightarrow> char \<Rightarrow> int" where
  "indexOf s c = indexOf_from 0 s c"

definition getAllFieldNames :: "InvertedIndex \<Rightarrow> string set" where
  "getAllFieldNames idx =
     (\<lambda>termKey. take (nat (indexOf termKey CHR '':'')) termKey) `
       {termKey \<in> dom (termDict idx). indexOf termKey CHR '':'' > 0}"

text \<open>
  The loop \<open>for fieldName := range idx.getAllFieldNames()\<close> of \<open>Search\<close> and of
  \<open>SearchMultipleTerms\<close>, over the field names in the order \<open>order\<close>: the first field
  under which the token is a key of the dictionary wins.
\<close>

fun lookup_fields :: "(string \<rightharpoonup> PostingList) \<Rightarrow> string list \<Rightarrow> string \<Rightarrow> PostingList option" where
  "lookup_fields dict [] token = None"
| "lookup_fields dict (fieldName # order) token =
     (case dict (fieldName @ '':'' @ token) of
        Some postingList \<Rightarrow> Some postingList
      | None \<Rightarrow> lookup_fields dict order token)"

definition Search :: "unicode \<Rightarrow> InvertedIndex \<Rightarrow> string list \<Rightarrow> string \<Rightarrow> PostingList option" where
  "Search U idx order term =
     (case Analyze U (analyzer idx) term of
        [] \<Rightarrow> None
      | token # _ \<Rightarrow> lookup_fields (termDict idx) order token)"

definition SearchInField :: "unicode \<Rightarrow> InvertedIndex \<Rightarrow> string \<Rightarrow> string \<Rightarrow> PostingList option" where
  "SearchInField U idx fieldName term =
     (case Analyze U (analyzer idx) term of
        [] \<Rightarrow> None
      | token # _ \<Rightarrow> termDict idx (fieldName @ '':'' @ token))"

definition in_all_lists :: "PostingList list \<Rightarrow> string \<Rightarrow> bool" where
  "in_all_lists others docID \<longleftrightarrow> list_all (\<lambda>l. GetPosting (Postings l) docID \<noteq> None) others"

definition intersectPostingLists :: "PostingList list \<Rightarrow> PostingList" where
  "intersectPostingLists pls =
     (case pls of
        [] \<Rightarrow> NewPostingList
      | [l] \<Rightarrow> l
      | first # others \<Rightarrow>
          foldl (\<lambda>result posting.
                   if in_all_lists others (DocID posting)
                   then result\<lparr>Postings := Postings result @ [posting], DocFreq := DocFreq result + 1\<rparr>
                   else result)
            NewPostingList (Postings first))"

text \<open>
  The loop over the terms in \<open>SearchMultipleTerms\<close>. \<open>ord i\<close> is the order in which
  the field names are enumerated for the term at index \<open>i\<close>. \<open>None\<close> stands for the
  early \<open>return NewPostingList()\<close> on a term that is not found.
\<close>

fun SearchMultipleTerms_loop ::
  "unicode \<Rightarrow> InvertedIndex \<Rightarrow> (nat \<Rightarrow> string list) \<Rightarrow> nat \<Rightarrow> string list \<Rightarrow> PostingList list
   \<Rightarrow> PostingList list option" where
  "SearchMultipleTerms_loop U idx ord i [] postingLists = Some postingLists"
| "SearchMultipleTerms_loop U idx ord i (term # terms) postingLists =
     (case Analyze U (analyzer idx) term of
        [] \<Rightarrow> SearchMultipleTerms_loop U idx ord (Suc i) terms postingLists
      | token # _ \<Rightarrow>
          (case lookup_fields (termDict idx) (ord i) token of
             Some pl \<Rightarrow> SearchMultipleTerms_loop U idx ord (Suc i) terms (postingLists @ [pl])
           | None \<Rightarrow> None))"

text \<open>The result is \<open>None\<close> for Go's \<open>nil\<close> (an empty list of terms).\<close>

definition SearchMultipleTerms ::
  "unicode \<Rightarrow> InvertedIndex \<Rightarrow> (nat \<Rightarrow> string list) \<Rightarrow> string list \<Rightarrow> PostingList option" where
  "SearchMultipleTerms U idx ord terms =
     (if length terms = 0 then None
      else (case SearchMultipleTerms_loop U idx ord 0 terms [] of
              None \<Rightarrow> Some NewPostingList
            | Some postingLists \<Rightarrow>
                if length postingLists = 0 then Some NewPostingList
                else Some (intersectPostingLists postingLists)))"

text \<open>A sequence of \<open>IndexDocument\<close> calls, each with its document ID, field name and text.\<close>

definition IndexDocuments ::
  "unicode \<Rightarrow> InvertedIndex \<Rightarrow> (string \<times> string \<times> string) list \<Rightarrow> InvertedIndex" where
  "IndexDocuments U idx calls =
     foldl (\<lambda>i (docID, fieldName, text). IndexDocument U i docID fieldName text) idx calls"

text \<open>Every posting list of the term dictionary satisfies the posting list invariants.\<close>

definition index_ok :: "InvertedIndex \<Rightarrow> bool" where
  "index_ok idx \<longleftrightarrow> (\<forall>key pl. termDict idx key = Some pl \<longrightarrow> posting_list_ok pl)"

text \<open>
  Vocabulary for the statements about \<open>SearchMultipleTerms\<close>: a token has a match under
  the any-field lookup when it is a key under one of the field names of the dictionary;
  a term has no match when its analysis yields a first token that has none; the
  retrieved lists are those of the terms that \<open>Search\<close> finds, in the order of the terms.
\<close>

definition any_field_match :: "InvertedIndex \<Rightarrow> string \<Rightarrow> bool" where
  "any_field_match idx token \<longleftrightarrow>
     (\<exists>fieldName \<in> getAllFieldNames idx. termDict idx (fieldName @ '':'' @ token) \<noteq> None)"

definition no_match :: "unicode \<Rightarrow> InvertedIndex \<Rightarrow> string \<Rightarrow> bool" where
  "no_match U idx term =
     (case Analyze U (analyzer idx) term of
        [] \<Rightarrow> False
      | token # _ \<Rightarrow> \<not> any_field_match idx token)"

fun retrieved ::
  "unicode \<Rightarrow> InvertedIndex \<Rightarrow> (nat \<Rightarrow> string list) \<Rightarrow> nat \<Rightarrow> string list \<Rightarrow> PostingList list" where
  "retrieved U idx ord i [] = []"
| "retrieved U idx ord i (term # terms) =
     (case Search U idx (ord i) term of
        Some pl \<Rightarrow> pl # retrieved U idx ord (Suc i) terms
      | None \<Rightarrow> retrieved U idx ord (Suc i) terms)"

text \<open>
  A small index for the concrete statements: document 1 with title "classic novel",
  document 2 with description "novel".
\<close>

definition sample_index :: InvertedIndex where
  "sample_index =
     IndexDocuments ascii_unicode NewInvertedIndex
       [(''1'', ''title'', ''classic novel''), (''2'', ''description'', ''novel'')]"


section \<open>Index segments (package inverted, segment.go)\<close>

text \<open>
  The header of an index segment: 18 bytes. \<open>Write\<close> creates or truncates the file at
  the path of the segment and returns the file it wrote; \<open>Read\<close> is given the bytes
  found at the path. A call that fails returns its error only.
\<close>

record IndexSegmentHeader =
  inv_Magic :: "byte list"
  inv_Version :: "16 word"
  TermCount :: "32 word"
  inv_Reserved :: "byte list"

definition IndexSegmentMagic :: string where "IndexSegmentMagic = ''NINV''"
definition IndexSegmentVersion :: "16 word" where "IndexSegmentVersion = 1"

definition IndexSegmentHeader_bytes :: "IndexSegmentHeader \<Rightarrow> byte list" where
  "IndexSegmentHeader_bytes h =
     inv_Magic h @ PutUint16 (inv_Version h) @ PutUint32 (TermCount h) @ inv_Reserved h"

definition IndexSegmentHeader_of_bytes :: "byte list \<Rightarrow> IndexSegmentHeader" where
  "IndexSegmentHeader_of_bytes b =
     \<lparr>inv_Magic = take 4 b, inv_Version = Uint16 (drop 4 b), TermCount = Uint32 (drop 6 b),
      inv_Reserved = take 8 (drop 10 b)\<rparr>"

definition IndexSegmentHeader_size :: nat where
  "IndexSegmentHeader_size = 18"

text \<open>
  \<open>binary.Write(file, order, posting.Positions)\<close> and \<open>binary.Read(file, order,
  positions)\<close> on a \<open>[]int\<close>: \<open>encoding/binary\<close> takes values of fixed size only,
  which \<open>int\<close> is not, and returns an error before it writes or reads a byte.
\<close>

definition binary_Write_ints :: "os_File \<Rightarrow> int list \<Rightarrow> error + os_File" where
  "binary_Write_ints f positions = Inl NotFixedSize"

definition binary_Read_ints :: "os_File \<Rightarrow> nat \<Rightarrow> error + (int list \<times> os_File)" where
  "binary_Read_ints f n = Inl NotFixedSize"

text \<open>The loop of \<open>writePostingList\<close> over the postings, and \<open>writePostingList\<close>.\<close>

fun writePostingList_loop :: "os_File \<Rightarrow> Posting list \<Rightarrow> error + os_File" where
  "writePostingList_loop f [] = Inr f"
| "writePostingList_loop f (posting # rest) =
     (let docIDBytes = bytes_of_string (DocID posting)
      in case file_Write f (PutUint16 (of_nat (length docIDBytes))) of
           Inl e \<Rightarrow> Inl e
         | Inr f1 \<Rightarrow>
             (case file_Write f1 docIDBytes of
                Inl e \<Rightarrow> Inl e
              | Inr f2 \<Rightarrow>
                  (case file_Write f2 (PutUint32 (word_of_int (TermFreq posting))) of
                     Inl e \<Rightarrow> Inl e
                   | Inr f3 \<Rightarrow>
                       (let posCount = (of_nat (length (Positions posting)) :: 32 word)
                        in case file_Write f3 (PutUint32 posCount) of
                             Inl e \<Rightarrow> Inl e
                           | Inr f4 \<Rightarrow>
                               (case (if posCount > 0 then binary_Write_ints f4 (Positions posting)
                                      else Inr f4) of
                                  Inl e \<Rightarrow> Inl e
                                | Inr f5 \<Rightarrow> writePostingList_loop f5 rest)))))"

definition writePostingList :: "os_File \<Rightarrow> PostingList \<Rightarrow> error + os_File" where
  "writePostingList f pl =
     (case file_Write f (PutUint32 (word_of_int (DocFreq pl))) of
        Inl e \<Rightarrow> Inl e
      | Inr f1 \<Rightarrow> writePostingList_loop f1 (Postings pl))"

text \<open>
  The loop of \<open>Write\<close> over the term dictionary, whose keys the runtime enumerates in
  the order \<open>order\<close>, and \<open>Write\<close>; \<open>len(index.termDict)\<close> is the number of keys.
\<close>

fun Write_loop :: "os_File \<Rightarrow> (string \<rightharpoonup> PostingList) \<Rightarrow> string list \<Rightarrow> error + os_File" where
  "Write_loop f dict [] = Inr f"
| "Write_loop f dict (term # order) =
     (case dict term of
        None \<Rightarrow> Write_loop f dict order
      | Some postingList \<Rightarrow>
          (let termBytes = bytes_of_string term
           in case file_Write f (PutUint16 (of_nat (length termBytes))) of
                Inl e \<Rightarrow> Inl e
              | Inr f1 \<Rightarrow>
                  (case file_Write f1 termBytes of
                     Inl e \<Rightarrow> Inl e
                   | Inr f2 \<Rightarrow>
                       (case writePostingList f2 postingList of
                          Inl e \<Rightarrow> Inl e
                        | Inr f3 \<Rightarrow> Write_loop f3 dict order))))"

definition IndexSegment_Write :: "InvertedIndex \<Rightarrow> string list \<Rightarrow> error + os_File" where
  "IndexSegment_Write index order =
     (let header = \<lparr>inv_Magic = bytes_of_string IndexSegmentMagic, inv_Version = IndexSegmentVersion,
                     TermCount = of_nat (length order), inv_Reserved = replicate 8 0\<rparr>
      in case file_Write \<lparr>content = [], pos = 0\<rparr> (IndexSegmentHeader_bytes header) of
           Inl e \<Rightarrow> Inl (Wrapped ''failed to write header'' e)
         | Inr f \<Rightarrow> Write_loop f (termDict index) order)"

text \<open>
  The loop of \<open>readPostingList\<close>, \<open>docFreq\<close> times, and \<open>readPostingList\<close>. (The
  slices that \<open>make\<close> allocates for the counts read from the file are not modelled.)
\<close>

fun readPostingList_loop :: "os_File \<Rightarrow> nat \<Rightarrow> Posting list \<Rightarrow> error + (Posting list \<times> os_File)" where
  "readPostingList_loop f 0 postings = Inr (postings, f)"
| "readPostingList_loop f (Suc n) postings =
     (case file_ReadFull f 2 of
        Inl e \<Rightarrow> Inl e
      | Inr (lenBytes, f1) \<Rightarrow>
          (case file_ReadFull f1 (unat (Uint16 lenBytes)) of
             Inl e \<Rightarrow> Inl e
           | Inr (docIDBytes, f2) \<Rightarrow>
               (case file_ReadFull f2 4 of
                  Inl e \<Rightarrow> Inl e
                | Inr (termFreq, f3) \<Rightarrow>
                    (case file_ReadFull f3 4 of
                       Inl e \<Rightarrow> Inl e
                     | Inr (posCount, f4) \<Rightarrow>
                         (case (if Uint32 posCount > 0 then binary_Read_ints f4 (unat (Uint32 posCount))
                                else Inr ([], f4)) of
                            Inl e \<Rightarrow> Inl e
                          | Inr (positions, f5) \<Rightarrow>
                              readPostingList_loop f5 n
                                (postings @ [\<lparr>DocID = string_of_bytes docIDBytes,
                                               TermFreq = uint (Uint32 termFreq),
                                               Positions = positions\<rparr>]))))))"

definition readPostingList :: "os_File \<Rightarrow> error + (PostingList \<times> os_File)" where
  "readPostingList f =
     (case file_ReadFull f 4 of
        Inl e \<Rightarrow> Inl e
      | Inr (docFreq, f1) \<Rightarrow>
          (case readPostingList_loop f1 (unat (Uint32 docFreq)) [] of
             Inl e \<Rightarrow> Inl e
           | Inr (postings, f2) \<Rightarrow> Inr (\<lparr>Postings = postings, DocFreq = uint (Uint32 docFreq)\<rparr>, f2)))"

text \<open>The loop of \<open>Read\<close>, \<open>TermCount\<close> times, and \<open>Read\<close>.\<close>

fun Read_loop ::
  "os_File \<Rightarrow> nat \<Rightarrow> (string \<rightharpoonup> PostingList) \<Rightarrow> error + ((string \<rightharpoonup> PostingList) \<times> os_File)" where
  "Read_loop f 0 dict = Inr (dict, f)"
| "Read_loop f (Suc n) dict =
     (case file_ReadFull f 2 of
        Inl e \<Rightarrow> Inl e
      | Inr (lenBytes, f1) \<Rightarrow>
          (case file_ReadFull f1 (unat (Uint16 lenBytes)) of
             Inl e \<Rightarrow> Inl e
           | Inr (termBytes, f2) \<Rightarrow>
               (case readPostingList f2 of
                  Inl e \<Rightarrow> Inl e
                | Inr (postingList, f3) \<Rightarrow>
                    Read_loop f3 n (dict(string_of_bytes termBytes \<mapsto> postingList)))))"

definition IndexSegment_Read :: "byte list \<Rightarrow> error + InvertedIndex" where
  "IndexSegment_Read bytes =
     (case file_ReadFull \<lparr>content = bytes, pos = 0\<rparr> IndexSegmentHeader_size of
        Inl e \<Rightarrow> Inl (Wrapped ''failed to read header'' e)
      | Inr (b, f) \<Rightarrow>
          (let header = IndexSegmentHeader_of_bytes b
           in if string_of_bytes (inv_Magic header) \<noteq> IndexSegmentMagic then Inl InvalidMagic
              else case Read_loop f (unat (TermCount header)) Map.empty of
                     Inl e \<Rightarrow> Inl e
                   | Inr (dict, f') \<Rightarrow> Inr (NewInvertedIndex\<lparr>termDict := dict\<rparr>)))"

subsection \<open>The layout of an index segment\<close>

text \<open>
  The file as the format describes it: the header with the number of terms, then for
  each term its length, its bytes and its posting list (the document frequency, then
  for each posting the length and bytes of the document ID, the term frequency, the
  number of positions and the positions, 64 bits each). \<open>storable\<close> holds of an index
  whose lengths and counts fit the fields of the format and whose postings carry no
  positions.
\<close>

definition posting_bytes :: "Posting \<Rightarrow> byte list" where
  "posting_bytes p =
     PutUint16 (of_nat (length (DocID p))) @ bytes_of_string (DocID p)
     @ PutUint32 (word_of_int (TermFreq p)) @ PutUint32 (of_nat (length (Positions p)))
     @ concat (map (\<lambda>x. PutUint64 (word_of_int x)) (Positions p))"

definition posting_list_bytes :: "PostingList \<Rightarrow> byte list" where
  "posting_list_bytes pl =
     PutUint32 (word_of_int (DocFreq pl)) @ concat (map posting_bytes (Postings pl))"

definition term_bytes :: "(string \<rightharpoonup> PostingList) \<Rightarrow> string \<Rightarrow> byte list" where
  "term_bytes dict term =
     (case dict term of
        None \<Rightarrow> []
      | Some pl \<Rightarrow> PutUint16 (of_nat (length term)) @ bytes_of_string term @ posting_list_bytes pl)"

definition IndexSegment_header_of :: "32 word \<Rightarrow> byte list" where
  "IndexSegment_header_of n =
     IndexSegmentHeader_bytes
       \<lparr>inv_Magic = bytes_of_string IndexSegmentMagic, inv_Version = IndexSegmentVersion,
        TermCount = n, inv_Reserved = replicate 8 0\<rparr>"

definition index_segment_bytes :: "InvertedIndex \<Rightarrow> string list \<Rightarrow> byte list" where
  "index_segment_bytes index order =
     IndexSegment_header_of (of_nat (length order)) @ concat (map (term_bytes (termDict index)) order)"

definition storable_posting :: "Posting \<Rightarrow> bool" where
  "storable_posting p \<longleftrightarrow>
     length (DocID p) < 2 ^ 16 \<and> 0 \<le> TermFreq p \<and> TermFreq p < 2 ^ 32 \<and> Positions p = []"

definition storable_list :: "PostingList \<Rightarrow> bool" where
  "storable_list pl \<longleftrightarrow>
     DocFreq pl = int (length (Postings pl)) \<and> length (Postings pl) < 2 ^ 32 \<and>
     list_all storable_posting (Postings pl)"

definition storable :: "InvertedIndex \<Rightarrow> string list \<Rightarrow> bool" where
  "storable index order \<longleftrightarrow>
     range_order (dom (termDict index)) order \<and> length order < 2 ^ 32 \<and>
     list_all (\<lambda>term. length term < 2 ^ 16 \<and>
                      (case termDict index term of None \<Rightarrow> False | Some pl \<Rightarrow> storable_list pl)) order \<and>
     length (index_segment_bytes index order) \<le> max_offset"

text \<open>A file whose handle is at its end, and a file read up to the bytes \<open>rest\<close>.\<close>

definition at_end :: "byte list \<Rightarrow> os_File" where
  "at_end c = \<lparr>content = c, pos = length c\<rparr>"

definition reading_at :: "byte list \<Rightarrow> byte list \<Rightarrow> os_File" where
  "reading_at a rest = \<lparr>content = a @ rest, pos = length a\<rparr>"

text \<open>
  An index whose one posting carries no positions, for concrete statements.
\<close>

definition bare_index :: InvertedIndex where
  "bare_index =
     NewInvertedIndex\<lparr>termDict :=
       [''title:novel'' \<mapsto> \<lparr>Postings = [\<lparr>DocID = ''1'', TermFreq = 1, Positions = []\<rparr>], DocFreq = 1\<rparr>]\<rparr>"

text \<open>
  What \<open>AddPosting\<close> maintains besides the invariants of a posting list: a posting
  list in the dictionary has a posting, and every posting has a position.
  \<open>short_positions\<close> holds of an index whose position lists have fewer than \<open>2^32\<close>
  elements, so that their number is the \<open>uint32\<close> that \<open>writePostingList\<close> makes of
  it.
\<close>

definition has_positions :: "PostingList \<Rightarrow> bool" where
  "has_positions pl \<longleftrightarrow> Postings pl \<noteq> [] \<and> list_all (\<lambda>p. Positions p \<noteq> []) (Postings pl)"

definition all_have_positions :: "InvertedIndex \<Rightarrow> bool" where
  "all_have_positions idx \<longleftrightarrow> (\<forall>key pl. termDict idx key = Some pl \<longrightarrow> has_positions pl)"

definition short_positions :: "InvertedIndex \<Rightarrow> bool" where
  "short_positions idx \<longleftrightarrow>
     (\<forall>key pl. termDict idx key = Some pl \<longrightarrow>
        list_all (\<lambda>p. length (Positions p) < 2 ^ 32) (Postings pl))"

text \<open>
  The file of the format for the term \<open>title:novel\<close> with one posting, document 1 at
  position 8.
\<close>

definition novel_file :: "byte list" where
  "novel_file =
     IndexSegment_header_of 1 @ PutUint16 11 @ bytes_of_string ''title:novel''
     @ PutUint32 1 @ PutUint16 1 @ bytes_of_string ''1'' @ PutUint32 1 @ PutUint32 1 @ PutUint64 8"
section \<open>Write-ahead log (package storage, wal.go)\<close>

text \<open>
  The state of a WAL that has been opened: the file, its offset, and the sequence
  counter (\<open>uint64\<close>). The methods take the mutex and, on a WAL that is not
  initialized, call \<open>Open\<close>; the model is of calls on an opened WAL, one at a time.
  The clock \<open>time.Now()\<close> is an argument. A method that fails returns its error only:
  the state a failed call leaves behind is not modelled.
\<close>

record WALEntry =
  entry_Type :: byte
  entry_Index :: string
  entry_DocID :: string
  entry_Document :: "Document option"
  entry_Timestamp :: "64 word"
  entry_Sequence :: "64 word"

definition WALEntryWrite :: byte where "WALEntryWrite = 1"
definition WALEntryDelete :: byte where "WALEntryDelete = 2"
definition WALEntryUpdate :: byte where "WALEntryUpdate = 3"

record WALHeader =
  wal_Magic :: "byte list"
  wal_Version :: "16 word"
  wal_Sequence :: "64 word"
  wal_Reserved :: "byte list"

definition WALMagic :: string where "WALMagic = ''NWAL''"
definition WALVersion :: "16 word" where "WALVersion = 1"

text \<open>\<open>binary.Write\<close> of a \<open>WALHeader\<close>: its fields in order, 22 bytes.\<close>

definition WALHeader_bytes :: "WALHeader \<Rightarrow> byte list" where
  "WALHeader_bytes h =
     wal_Magic h @ PutUint16 (wal_Version h) @ PutUint64 (wal_Sequence h) @ wal_Reserved h"

definition WALHeader_size :: nat where
  "WALHeader_size = 22"

record WAL =
  wal_Path :: string
  wal_file :: os_File
  sequence :: "64 word"

definition WAL_writeHeader :: "WAL \<Rightarrow> error + WAL" where
  "WAL_writeHeader w =
     (let header = \<lparr>wal_Magic = bytes_of_string WALMagic, wal_Version = WALVersion,
                     wal_Sequence = sequence w, wal_Reserved = replicate 8 0\<rparr>
      in case file_Write (wal_file w) (WALHeader_bytes header) of
           Inl e \<Rightarrow> Inl (Wrapped ''failed to write WAL header'' e)
         | Inr f \<Rightarrow> Inr (w\<lparr>wal_file := f\<rparr>))"

text \<open>
  \<open>Open\<close> on a path where the file is created or found empty (\<open>stat.Size() == 0\<close>):
  the header is written with sequence 0. (On a file that is not empty \<open>Open\<close> reads
  the header and scans the entries; that branch is not modelled.)
\<close>

definition WAL_Open_empty :: "string \<Rightarrow> error + WAL" where
  "WAL_Open_empty path =
     WAL_writeHeader \<lparr>wal_Path = path, wal_file = \<lparr>content = [], pos = 0\<rparr>, sequence = 0\<rparr>"

definition serializeEntry :: "json_codec \<Rightarrow> WALEntry \<Rightarrow> error + byte list" where
  "serializeEntry C entry =
     (let indexBytes = bytes_of_string (entry_Index entry);
          docIDBytes = bytes_of_string (entry_DocID entry)
      in case (case entry_Document entry of
                 None \<Rightarrow> Inr []
               | Some doc \<Rightarrow> json_Marshal_Document C doc) of
           Inl e \<Rightarrow> Inl e
         | Inr docBytes \<Rightarrow>
             Inr ([entry_Type entry]
                  @ PutUint64 (entry_Sequence entry)
                  @ PutUint64 (entry_Timestamp entry)
                  @ PutUint16 (of_nat (length indexBytes)) @ indexBytes
                  @ PutUint16 (of_nat (length docIDBytes)) @ docIDBytes
                  @ PutUint32 (of_nat (length docBytes)) @ docBytes))"

definition WAL_updateHeader :: "WAL \<Rightarrow> error + WAL" where
  "WAL_updateHeader w =
     (let currentPos = int (pos (wal_file w))
      in case file_Seek (wal_file w) 0 of
           Inl e \<Rightarrow> Inl e
         | Inr f \<Rightarrow>
             (case WAL_writeHeader (w\<lparr>wal_file := f\<rparr>) of
                Inl e \<Rightarrow> Inl e
              | Inr w' \<Rightarrow>
                  (case file_Seek (wal_file w') currentPos of
                     Inl e \<Rightarrow> Inl e
                   | Inr f' \<Rightarrow> Inr (w'\<lparr>wal_file := f'\<rparr>))))"

text \<open>The entry that \<open>WriteEntry\<close> builds after it has incremented the sequence.\<close>

definition new_entry :: "64 word \<Rightarrow> 64 word \<Rightarrow> byte \<Rightarrow> string \<Rightarrow> string \<Rightarrow> Document option \<Rightarrow> WALEntry" where
  "new_entry seq now entryType index docID doc =
     \<lparr>entry_Type = entryType, entry_Index = index, entry_DocID = docID, entry_Document = doc,
      entry_Timestamp = now, entry_Sequence = seq\<rparr>"

definition WAL_WriteEntry ::
  "json_codec \<Rightarrow> WAL \<Rightarrow> 64 word \<Rightarrow> byte \<Rightarrow> string \<Rightarrow> string \<Rightarrow> Document option \<Rightarrow> error + WAL" where
  "WAL_WriteEntry C w now entryType index docID doc =
     (let w1 = w\<lparr>sequence := sequence w + 1\<rparr>;
          entry = new_entry (sequence w1) now entryType index docID doc
      in case serializeEntry C entry of
           Inl e \<Rightarrow> Inl (Wrapped ''failed to serialize WAL entry'' e)
         | Inr entryBytes \<Rightarrow>
             (case file_Write (wal_file w1) (PutUint32 (of_nat (length entryBytes))) of
                Inl e \<Rightarrow> Inl (Wrapped ''failed to write entry length'' e)
              | Inr f \<Rightarrow>
                  (case file_Write f entryBytes of
                     Inl e \<Rightarrow> Inl (Wrapped ''failed to write entry'' e)
                   | Inr f' \<Rightarrow> WAL_updateHeader (w1\<lparr>wal_file := f'\<rparr>))))"

text \<open>
  A sequence of \<open>WriteEntry\<close> calls, each with the clock reading and the arguments of
  the call; it stops at the first call that fails.
\<close>

type_synonym write_call = "64 word \<times> byte \<times> string \<times> string \<times> Document option"

fun WAL_WriteEntries :: "json_codec \<Rightarrow> WAL \<Rightarrow> write_call list \<Rightarrow> error + WAL" where
  "WAL_WriteEntries C w [] = Inr w"
| "WAL_WriteEntries C w ((now, entryType, index, docID, doc) # calls) =
     (case WAL_WriteEntry C w now entryType index docID doc of
        Inl e \<Rightarrow> Inl e
      | Inr w' \<Rightarrow> WAL_WriteEntries C w' calls)"

text \<open>
  What \<open>readHeader\<close> reads as the sequence of a file: the \<open>uint64\<close> after the magic
  and the version. What \<open>deserializeEntry\<close> reads as the sequence of an entry: the
  \<open>uint64\<close> after the type byte.
\<close>

definition header_sequence :: "byte list \<Rightarrow> 64 word" where
  "header_sequence bytes = Uint64 (drop 6 bytes)"

definition entry_sequence :: "byte list \<Rightarrow> 64 word" where
  "entry_sequence data = Uint64 (drop 1 data)"

text \<open>
  The entries of a sequence of calls, numbered from \<open>seq + 1\<close>, as \<open>WriteEntry\<close> builds
  them, and the bytes of one entry in the file: its length (\<open>uint32\<close>) and its
  serialization.
\<close>

fun entries_from :: "64 word \<Rightarrow> write_call list \<Rightarrow> WALEntry list" where
  "entries_from seq [] = []"
| "entries_from seq ((now, entryType, index, docID, doc) # calls) =
     new_entry (seq + 1) now entryType index docID doc # entries_from (seq + 1) calls"

definition entry_frame :: "json_codec \<Rightarrow> WALEntry \<Rightarrow> byte list" where
  "entry_frame C entry =
     (case serializeEntry C entry of
        Inl e \<Rightarrow> []
      | Inr entryBytes \<Rightarrow> PutUint32 (of_nat (length entryBytes)) @ entryBytes)"

definition entry_payload :: "json_codec \<Rightarrow> WALEntry \<Rightarrow> byte list" where
  "entry_payload C entry = (case serializeEntry C entry of Inl e \<Rightarrow> [] | Inr entryBytes \<Rightarrow> entryBytes)"

text \<open>
  The header of a WAL file whose sequence is \<open>seq\<close>, and the invariant of a WAL on
  which \<open>n\<close> entries have been written since it was opened on an empty file: the
  counter is \<open>n\<close>, the file is the header for \<open>n\<close> followed by the entries, the
  offset is at the end of the file, and every entry took at least 29 bytes.
\<close>

definition WAL_header_of :: "64 word \<Rightarrow> byte list" where
  "WAL_header_of seq =
     WALHeader_bytes \<lparr>wal_Magic = bytes_of_string WALMagic, wal_Version = WALVersion,
                      wal_Sequence = seq, wal_Reserved = replicate 8 0\<rparr>"

definition wal_state :: "WAL \<Rightarrow> nat \<Rightarrow> byte list \<Rightarrow> bool" where
  "wal_state w n frames \<longleftrightarrow>
     sequence w = of_nat n \<and>
     content (wal_file w) = WAL_header_of (of_nat n) @ frames \<and>
     pos (wal_file w) = length (content (wal_file w)) \<and>
     29 * n \<le> length frames \<and>
     length (content (wal_file w)) \<le> max_offset"

text \<open>Two calls without a document, and a codec that is never asked, for concrete statements.\<close>

definition null_codec :: json_codec where
  "null_codec = \<lparr>Marshal = (\<lambda>j. None), Unmarshal = (\<lambda>b. None)\<rparr>"

definition sample_calls :: "write_call list" where
  "sample_calls = [(1000, WALEntryWrite, ''demo'', ''1'', None), (2000, WALEntryDelete, ''demo'', ''1'', None)]"

section \<open>Segments (package storage, segment.go)\<close>

text \<open>
  The state of a segment that has been opened. \<open>DocCount\<close> is a Go \<open>int\<close>, the
  offsets of \<open>docIndex\<close> are \<open>int64\<close>. As for the WAL, the model is of calls on an
  opened segment, one at a time (on a segment that is not initialized the methods call
  \<open>Open\<close> first), the clock is an argument, and a method that fails returns its error
  only.
\<close>

record SegmentHeader =
  header_Magic :: "byte list"
  header_Version :: "16 word"
  header_DocCount :: "32 word"
  header_Created :: "64 word"
  IndexOffset :: "64 word"
  header_Reserved :: "byte list"

definition SegmentMagic :: string where "SegmentMagic = ''NSEG''"
definition SegmentVersion :: "16 word" where "SegmentVersion = 1"

text \<open>\<open>binary.Write\<close> and \<open>binary.Read\<close> of a \<open>SegmentHeader\<close>: 34 bytes.\<close>

definition SegmentHeader_bytes :: "SegmentHeader \<Rightarrow> byte list" where
  "SegmentHeader_bytes h =
     header_Magic h @ PutUint16 (header_Version h) @ PutUint32 (header_DocCount h)
     @ PutUint64 (header_Created h) @ PutUint64 (IndexOffset h) @ header_Reserved h"

definition SegmentHeader_of_bytes :: "byte list \<Rightarrow> SegmentHeader" where
  "SegmentHeader_of_bytes b =
     \<lparr>header_Magic = take 4 b, header_Version = Uint16 (drop 4 b), header_DocCount = Uint32 (drop 6 b),
      header_Created = Uint64 (drop 10 b), IndexOffset = Uint64 (drop 18 b),
      header_Reserved = take 8 (drop 26 b)\<rparr>"

definition headerSize :: nat where
  "headerSize = 34"

record Segment =
  segment_ID :: string
  segment_Path :: string
  DocCount :: int
  segment_Created :: "64 word"
  segment_Version :: int
  segment_file :: os_File
  docIndex :: "string \<rightharpoonup> 64 word"

definition Segment_writeHeader :: "Segment \<Rightarrow> error + Segment" where
  "Segment_writeHeader s =
     (let header = \<lparr>header_Magic = bytes_of_string SegmentMagic, header_Version = SegmentVersion,
                     header_DocCount = word_of_int (DocCount s), header_Created = segment_Created s,
                     IndexOffset = 0, header_Reserved = replicate 8 0\<rparr>
      in case file_Write (segment_file s) (SegmentHeader_bytes header) of
           Inl e \<Rightarrow> Inl (Wrapped ''failed to write segment header'' e)
         | Inr f \<Rightarrow> Inr (s\<lparr>segment_file := f\<rparr>))"

definition Segment_readHeader :: "Segment \<Rightarrow> error + (SegmentHeader \<times> Segment)" where
  "Segment_readHeader s =
     (case file_ReadFull (segment_file s) headerSize of
        Inl e \<Rightarrow> Inl (Wrapped ''failed to read segment header'' e)
      | Inr (b, f) \<Rightarrow>
          (let header = SegmentHeader_of_bytes b
           in if string_of_bytes (header_Magic header) \<noteq> SegmentMagic then Inl InvalidMagic
              else Inr (header,
                        s\<lparr>segment_file := f, segment_Version := uint (header_Version header),
                          DocCount := uint (header_DocCount header),
                          segment_Created := header_Created header\<rparr>)))"

text \<open>The loop of \<open>readIndexAt\<close>, \<open>count\<close> times: an ID length, the ID, an offset.\<close>

fun readIndexAt_loop ::
  "nat \<Rightarrow> os_File \<Rightarrow> (string \<rightharpoonup> 64 word) \<Rightarrow> error + (os_File \<times> (string \<rightharpoonup> 64 word))" where
  "readIndexAt_loop 0 f index = Inr (f, index)"
| "readIndexAt_loop (Suc n) f index =
     (case file_ReadFull f 2 of
        Inl e \<Rightarrow> Inl (Wrapped ''failed to read ID length'' e)
      | Inr (lenBytes, f1) \<Rightarrow>
          (case file_ReadFull f1 (unat (Uint16 lenBytes)) of
             Inl e \<Rightarrow> Inl (Wrapped ''failed to read ID'' e)
           | Inr (idBytes, f2) \<Rightarrow>
               (case file_ReadFull f2 8 of
                  Inl e \<Rightarrow> Inl (Wrapped ''failed to read offset'' e)
                | Inr (offBytes, f3) \<Rightarrow>
                    readIndexAt_loop n f3 (index(string_of_bytes idBytes \<mapsto> Uint64 offBytes)))))"

definition Segment_readIndexAt :: "Segment \<Rightarrow> 64 word \<Rightarrow> error + Segment" where
  "Segment_readIndexAt s offset =
     (if sint offset \<le> 0 then Inr (s\<lparr>docIndex := Map.empty\<rparr>)
      else case file_Seek (segment_file s) (sint offset) of
             Inl e \<Rightarrow> Inl (Wrapped ''failed to seek to index'' e)
           | Inr f \<Rightarrow>
               (case file_ReadFull f 4 of
                  Inl e \<Rightarrow>
                    if e = EOF then Inr (s\<lparr>segment_file := f, docIndex := Map.empty\<rparr>)
                    else Inl (Wrapped ''failed to read index count'' e)
                | Inr (countBytes, f1) \<Rightarrow>
                    (case readIndexAt_loop (unat (Uint32 countBytes)) f1 Map.empty of
                       Inl e \<Rightarrow> Inl e
                     | Inr (f2, index) \<Rightarrow> Inr (s\<lparr>segment_file := f2, docIndex := index\<rparr>))))"

text \<open>
  \<open>NewSegment\<close> followed by \<open>Open\<close> on the bytes found at the path (none for a file
  that \<open>Open\<close> creates). \<open>now\<close> is \<open>time.Now().Unix()\<close> at \<open>NewSegment\<close>.
\<close>

definition Segment_Open :: "string \<Rightarrow> string \<Rightarrow> 64 word \<Rightarrow> byte list \<Rightarrow> error + Segment" where
  "Segment_Open segID path now bytes =
     (let s = \<lparr>segment_ID = segID, segment_Path = path, DocCount = 0, segment_Created = now,
                segment_Version = uint SegmentVersion,
                segment_file = \<lparr>content = bytes, pos = 0\<rparr>, docIndex = Map.empty\<rparr>
      in if length bytes = 0 then Segment_writeHeader s
         else case Segment_readHeader s of
                Inl e \<Rightarrow> Inl e
              | Inr (header, s1) \<Rightarrow>
                  if sint (IndexOffset header) > 0 then Segment_readIndexAt s1 (IndexOffset header)
                  else Inr s1)"

text \<open>
  The loop of \<open>writeIndex\<close> over \<open>docIndex\<close>, whose keys the runtime enumerates in the
  order \<open>order\<close>.
\<close>

fun writeIndex_loop :: "os_File \<Rightarrow> (string \<rightharpoonup> 64 word) \<Rightarrow> string list \<Rightarrow> error + os_File" where
  "writeIndex_loop f index [] = Inr f"
| "writeIndex_loop f index (docid # order) =
     (case index docid of
        None \<Rightarrow> writeIndex_loop f index order
      | Some offset \<Rightarrow>
          (let idBytes = bytes_of_string docid
           in case file_Write f (PutUint16 (of_nat (length idBytes))) of
                Inl e \<Rightarrow> Inl (Wrapped ''failed to write ID length'' e)
              | Inr f1 \<Rightarrow>
                  (case file_Write f1 idBytes of
                     Inl e \<Rightarrow> Inl (Wrapped ''failed to write ID'' e)
                   | Inr f2 \<Rightarrow>
                       (case file_Write f2 (PutUint64 offset) of
                          Inl e \<Rightarrow> Inl (Wrapped ''failed to write offset'' e)
                        | Inr f3 \<Rightarrow> writeIndex_loop f3 index order))))"

definition Segment_writeIndex :: "Segment \<Rightarrow> string list \<Rightarrow> error + Segment" where
  "Segment_writeIndex s order =
     (let f0 = file_SeekEnd (segment_file s);
          indexOffset = pos f0
      in case file_Write f0 (PutUint32 (of_nat (length order))) of
           Inl e \<Rightarrow> Inl (Wrapped ''failed to write index count'' e)
         | Inr f1 \<Rightarrow>
             (case writeIndex_loop f1 (docIndex s) order of
                Inl e \<Rightarrow> Inl e
              | Inr f2 \<Rightarrow>
                  (let currentPos = int (pos f2)
                   in case file_Seek f2 0 of
                        Inl e \<Rightarrow> Inl e
                      | Inr f3 \<Rightarrow>
                          (case file_ReadFull f3 headerSize of
                             Inl e \<Rightarrow> Inl e
                           | Inr (b, f4) \<Rightarrow>
                               (let header = (SegmentHeader_of_bytes b)
                                      \<lparr>IndexOffset := of_nat indexOffset,
                                       header_DocCount := word_of_int (DocCount s)\<rparr>
                                in case file_Seek f4 0 of
                                     Inl e \<Rightarrow> Inl e
                                   | Inr f5 \<Rightarrow>
                                       (case file_Write f5 (SegmentHeader_bytes header) of
                                          Inl e \<Rightarrow> Inl e
                                        | Inr f6 \<Rightarrow>
                                            (case file_Seek f6 currentPos of
                                               Inl e \<Rightarrow> Inl e
                                             | Inr f7 \<Rightarrow> Inr (s\<lparr>segment_file := f7\<rparr>))))))))"

definition Segment_updateHeader :: "Segment \<Rightarrow> 64 word \<Rightarrow> error + Segment" where
  "Segment_updateHeader s now =
     (let currentPos = int (pos (segment_file s))
      in case file_Seek (segment_file s) 0 of
           Inl e \<Rightarrow> Inl e
         | Inr f \<Rightarrow>
             (let s1 = s\<lparr>segment_file := f,
                         segment_Created := (if segment_Created s = 0 then now else segment_Created s)\<rparr>
              in case Segment_writeHeader s1 of
                   Inl e \<Rightarrow> Inl e
                 | Inr s2 \<Rightarrow>
                     (case file_Seek (segment_file s2) currentPos of
                        Inl e \<Rightarrow> Inl e
                      | Inr f' \<Rightarrow> Inr (s2\<lparr>segment_file := f'\<rparr>))))"

text \<open>
  The first half of \<open>WriteDocument\<close>: where the record goes. The result is the write
  offset and the file, positioned there (and cut at the index offset when the header
  names one).
\<close>

definition write_offset :: "os_File \<Rightarrow> error + (64 word \<times> os_File)" where
  "write_offset f =
     (if file_Size f = headerSize then
        (case file_Seek f (int headerSize) of
           Inl e \<Rightarrow> Inl (Wrapped ''failed to seek'' e)
         | Inr f1 \<Rightarrow> Inr (of_nat headerSize, f1))
      else
        (case file_Seek f 0 of
           Inl e \<Rightarrow> Inl e
         | Inr f1 \<Rightarrow>
             (case file_ReadFull f1 headerSize of
                Inl e \<Rightarrow> Inl e
              | Inr (b, f2) \<Rightarrow>
                  (let header = SegmentHeader_of_bytes b
                   in case (if sint (IndexOffset header) > 0
                            then (case file_Truncate f2 (sint (IndexOffset header)) of
                                    Inl e \<Rightarrow> Inl e
                                  | Inr f3 \<Rightarrow> Inr (IndexOffset header, f3))
                            else Inr (of_nat (file_Size f), f2)) of
                        Inl e \<Rightarrow> Inl e
                      | Inr (writeOffset, f4) \<Rightarrow>
                          (case file_Seek f4 (sint writeOffset) of
                             Inl e \<Rightarrow> Inl (Wrapped ''failed to seek'' e)
                           | Inr f5 \<Rightarrow> Inr (writeOffset, f5))))))"

definition Segment_WriteDocument :: "json_codec \<Rightarrow> Segment \<Rightarrow> 64 word \<Rightarrow> Document \<Rightarrow> error + Segment" where
  "Segment_WriteDocument C s now doc =
     (case json_Marshal_Document C doc of
        Inl e \<Rightarrow> Inl (Wrapped ''failed to marshal document'' e)
      | Inr docBytes \<Rightarrow>
          (case write_offset (segment_file s) of
             Inl e \<Rightarrow> Inl e
           | Inr (writeOffset, f) \<Rightarrow>
               (case file_Write f (PutUint32 (of_nat (length docBytes))) of
                  Inl e \<Rightarrow> Inl (Wrapped ''failed to write document length'' e)
                | Inr f1 \<Rightarrow>
                    (case file_Write f1 docBytes of
                       Inl e \<Rightarrow> Inl (Wrapped ''failed to write document'' e)
                     | Inr f2 \<Rightarrow>
                         Segment_updateHeader
                           (s\<lparr>segment_file := f2,
                              docIndex := (docIndex s)(ID doc \<mapsto> writeOffset),
                              DocCount := DocCount s + 1\<rparr>)
                           now))))"

text \<open>
  \<open>ReadDocument\<close> moves the offset of the file, which no method relies on (each seeks
  before it reads or writes); the model returns the result only.
\<close>

definition Segment_ReadDocument :: "json_codec \<Rightarrow> Segment \<Rightarrow> string \<Rightarrow> error + Document" where
  "Segment_ReadDocument C s docid =
     (case docIndex s docid of
        None \<Rightarrow> Inl (SegmentDocumentNotFound docid (segment_ID s))
      | Some offset \<Rightarrow>
          (case file_Seek (segment_file s) (sint offset) of
             Inl e \<Rightarrow> Inl (Wrapped ''failed to seek to document'' e)
           | Inr f \<Rightarrow>
               (case file_ReadFull f 4 of
                  Inl e \<Rightarrow> Inl (Wrapped ''failed to read document length'' e)
                | Inr (lenBytes, f1) \<Rightarrow>
                    (case file_ReadFull f1 (unat (Uint32 lenBytes)) of
                       Inl e \<Rightarrow> Inl (Wrapped ''failed to read document'' e)
                     | Inr (docBytes, f2) \<Rightarrow>
                         (case json_Unmarshal_Document C docBytes of
                            Inl e \<Rightarrow> Inl (Wrapped ''failed to unmarshal document'' e)
                          | Inr doc \<Rightarrow> Inr doc)))))"

definition Segment_Flush :: "Segment \<Rightarrow> string list \<Rightarrow> error + Segment" where
  "Segment_Flush s order = Segment_writeIndex s order"

text \<open>
  The bytes of the header of a segment with \<open>n\<close> documents, creation time \<open>created\<close>
  and index offset \<open>indexOffset\<close>.
\<close>

definition Segment_header_of :: "int \<Rightarrow> 64 word \<Rightarrow> 64 word \<Rightarrow> byte list" where
  "Segment_header_of n created indexOffset =
     SegmentHeader_bytes
       \<lparr>header_Magic = bytes_of_string SegmentMagic, header_Version = SegmentVersion,
        header_DocCount = word_of_int n, header_Created = created,
        IndexOffset = indexOffset, header_Reserved = replicate 8 0\<rparr>"

text \<open>
  For the concrete statements: a codec whose text of every value is \<open>{}\<close> and which
  reads \<open>{}\<close> as the empty object and nothing else; a document; its record in a
  segment; a segment \<open>seg1\<close> given by its file, offset, document count and index; and the
  tail index of the documents 1 and 2 at the offsets 34 and 40.
\<close>

definition brace_codec :: json_codec where
  "brace_codec =
     \<lparr>Marshal = (\<lambda>j. Some (bytes_of_string ''{}'')),
      Unmarshal = (\<lambda>b. if b = bytes_of_string ''{}'' then Some (JObject []) else None)\<rparr>"

definition doc_of :: "string \<Rightarrow> Document" where
  "doc_of docid = \<lparr>ID = docid, Fields = [(''title'', TextValue ''Hello World'')], Version = 1,
     Created = ''2024-01-01T00:00:00Z'', Updated = ''2024-01-01T00:00:00Z''\<rparr>"

definition sample_record :: "byte list" where
  "sample_record = PutUint32 2 @ bytes_of_string ''{}''"

definition sample_segment :: "byte list \<Rightarrow> nat \<Rightarrow> int \<Rightarrow> (string \<rightharpoonup> 64 word) \<Rightarrow> Segment" where
  "sample_segment bytes p n index =
     \<lparr>segment_ID = ''seg1'', segment_Path = ''segment_seg1.dat'', DocCount = n, segment_Created = 7,
      segment_Version = 1, segment_file = \<lparr>content = bytes, pos = p\<rparr>, docIndex = index\<rparr>"

definition sample_tail :: "byte list" where
  "sample_tail = PutUint32 2 @ (PutUint16 1 @ bytes_of_string ''1'' @ PutUint64 34)
                             @ (PutUint16 1 @ bytes_of_string ''2'' @ PutUint64 40)"

section \<open>Index manager (package storage, index.go)\<close>

record IndexManager =
  manager_Name :: string
  BasePath :: string
  manager_Schema :: Schema
  segments :: "Segment list"
  wal :: WAL
  nextSegID :: int

text \<open>
  \<open>WriteDocument\<close>: \<open>now_wal\<close> and \<open>now_seg\<close> are the two readings of the clock (by
  the WAL entry and by the header of the segment), \<open>order\<close> is the order in which the
  flush enumerates the document index.
\<close>

definition IndexManager_WriteDocument ::
  "json_codec \<Rightarrow> IndexManager \<Rightarrow> 64 word \<Rightarrow> 64 word \<Rightarrow> string list \<Rightarrow> Document \<Rightarrow> error + IndexManager" where
  "IndexManager_WriteDocument C im now_wal now_seg order doc =
     (case ValidateDocument (manager_Schema im) doc of
        Some e \<Rightarrow> Inl (Wrapped ''schema validation failed'' e)
      | None \<Rightarrow>
          (case WAL_WriteEntry C (wal im) now_wal WALEntryWrite (manager_Name im) (ID doc) (Some doc) of
             Inl e \<Rightarrow> Inl (Wrapped ''failed to write to WAL'' e)
           | Inr w \<Rightarrow>
               if length (segments im) = 0 then Inl NoSegmentsAvailable
               else
                 (case Segment_WriteDocument C (last (segments im)) now_seg doc of
                    Inl e \<Rightarrow> Inl (Wrapped ''failed to write to segment'' e)
                  | Inr s \<Rightarrow>
                      (case Segment_Flush s order of
                         Inl e \<Rightarrow> Inl (Wrapped ''failed to flush segment'' e)
                       | Inr s' \<Rightarrow>
                           Inr (im\<lparr>wal := w, segments := butlast (segments im) @ [s']\<rparr>)))))"

text \<open>
  \<open>ReadDocument\<close>: the loop from the last segment to the first, given the segments
  still to visit, newest first.
\<close>

fun ReadDocument_loop :: "json_codec \<Rightarrow> Segment list \<Rightarrow> string \<Rightarrow> error + Document" where
  "ReadDocument_loop C [] docid = Inl (DocumentNotFound docid)"
| "ReadDocument_loop C (seg # older) docid =
     (case Segment_ReadDocument C seg docid of
        Inr doc \<Rightarrow> Inr doc
      | Inl err \<Rightarrow> ReadDocument_loop C older docid)"

definition IndexManager_ReadDocument :: "json_codec \<Rightarrow> IndexManager \<Rightarrow> string \<Rightarrow> error + Document" where
  "IndexManager_ReadDocument C im docid = ReadDocument_loop C (rev (segments im)) docid"


subsection \<open>Errors of schema validation\<close>

text \<open>
  \<open>is_SchemaValidation e\<close>: the error is a \<open>SchemaValidationError\<close>, possibly wrapped
  (what \<open>errors.As\<close> finds). \<open>type_or_dimension_mismatch\<close>: some field of the document
  that the schema declares reports another type than declared, or is a \<open>VectorValue\<close>
  held by value whose \<open>Dim\<close> is not the declared dimension.
\<close>

fun is_SchemaValidation :: "error \<Rightarrow> bool" where
  "is_SchemaValidation (SchemaValidationError field expected actual message) = True"
| "is_SchemaValidation (Wrapped msg e) = is_SchemaValidation e"
| "is_SchemaValidation e = False"

definition type_or_dimension_mismatch :: "Schema \<Rightarrow> Document \<Rightarrow> bool" where
  "type_or_dimension_mismatch sch doc \<longleftrightarrow>
     (\<exists>(name, v) \<in> set (Fields doc). \<exists>def.
        schema_Fields sch name = Some def \<and>
        (FieldValue_Type v \<noteq> Type def \<or>
         (\<exists>vec vdim. v = VectorValue vec vdim \<and> vdim \<noteq> VectorDim def)))"

subsection \<open>A schema, documents, segments and a manager for concrete statements\<close>

text \<open>
  The claim on vectors in the words of the specification: the length of the value of a
  declared vector field against the declared dimension (\<open>ValidateDocument\<close> reads the
  \<open>Dim\<close> member instead).
\<close>

definition type_or_length_mismatch :: "Schema \<Rightarrow> Document \<Rightarrow> bool" where
  "type_or_length_mismatch sch doc \<longleftrightarrow>
     (\<exists>(name, v) \<in> set (Fields doc). \<exists>def.
        schema_Fields sch name = Some def \<and>
        (FieldValue_Type v \<noteq> Type def \<or>
         (\<exists>vec vdim. v = VectorValue vec vdim \<and> int (length vec) \<noteq> VectorDim def)))"

text \<open>
  The schema declares a text field \<open>title\<close> and a vector field \<open>embedding\<close> of
  dimension 2.
\<close>

definition sample_schema :: Schema where
  "sample_schema =
     \<lparr>Name = ''books'',
      schema_Fields =
        [''title'' \<mapsto> \<lparr>Type = FieldTypeText, Indexed = True, Stored = True, Analyzed = True,
                         VectorDim = 0, Boost = 1, Description = []\<rparr>,
         ''embedding'' \<mapsto> \<lparr>Type = FieldTypeVector, Indexed = True, Stored = True, Analyzed = False,
                             VectorDim = 2, Boost = 1, Description = []\<rparr>],
      PrimaryKey = ''id'', schema_Created = 0, schema_Version = 1\<rparr>"

text \<open>
  \<open>&VectorValue{Dim: 3}\<close>, a pointer to a vector carrier: it reports the type vector
  and is written as the carrier is (a \<open>nil\<close> slice as \<open>null\<close>).
\<close>

definition pointer_vector :: FieldValue where
  "pointer_vector = OtherValue FieldTypeVector (JObject [(''Value'', JNull), (''Dim'', JNumber 3)])"

definition doc_with :: "(string \<times> FieldValue) list \<Rightarrow> Document" where
  "doc_with fs = \<lparr>ID = ''1'', Fields = fs, Version = 1,
     Created = ''2024-01-01T00:00:00Z'', Updated = ''2024-01-01T00:00:00Z''\<rparr>"

text \<open>
  Four segments with the header of one document: \<open>good_segment\<close> holds the record
  \<open>{}\<close> of document 1 at offset 34; \<open>corrupt_segment\<close> holds a record that is not
  JSON there; the file of \<open>short_segment\<close> ends at offset 34; \<open>other_segment\<close> has no
  entry for document 1.
\<close>

definition good_segment :: Segment where
  "good_segment = sample_segment (Segment_header_of 1 7 0 @ sample_record) 40 1 [''1'' \<mapsto> 34]"

definition corrupt_segment :: Segment where
  "corrupt_segment =
     sample_segment (Segment_header_of 1 7 0 @ PutUint32 2 @ bytes_of_string ''{x'') 40 1 [''1'' \<mapsto> 34]"

definition short_segment :: Segment where
  "short_segment = sample_segment (Segment_header_of 1 7 0) 34 1 [''1'' \<mapsto> 34]"

definition other_segment :: Segment where
  "other_segment = sample_segment (Segment_header_of 1 7 0 @ sample_record) 40 1 [''2'' \<mapsto> 34]"

definition sample_manager :: "Segment list \<Rightarrow> IndexManager" where
  "sample_manager segs =
     \<lparr>manager_Name = ''books'', BasePath = ''data'', manager_Schema = sample_schema, segments = segs,
      wal = \<lparr>wal_Path = ''data/wal.log'', wal_file = \<lparr>content = WAL_header_of 0, pos = 22\<rparr>, sequence = 0\<rparr>,
      nextSegID = 1\<rparr>"

text \<open>
  The JSON text of \<open>vector_doc\<close> as \<open>json.Marshal\<close> writes it, and the codec that
  knows this one text.
\<close>

definition vector_text :: "byte list" where
  \<open>vector_text = bytes_of_string
     ''{"id":"1","version":1,"created":"2024-01-01T00:00:00Z","updated":"2024-01-01T00:00:00Z","fields":{"embedding":{"type":"vector","value":{"Value":[1,2],"Dim":2}},"published":{"type":"date","value":{"Value":"2024-01-01T00:00:00Z"}},"title":{"type":"text","value":{"Value":"Hello World"}}}}''\<close>

definition vector_codec :: json_codec where
  "vector_codec =
     \<lparr>Marshal = (\<lambda>j. if j = Document_MarshalJSON vector_doc then Some vector_text else None),
      Unmarshal = (\<lambda>b. if b = vector_text then Some (Document_MarshalJSON vector_doc) else None)\<rparr>"
section \<open>Little-endian encoding and file writes\<close>

lemma le_step:
  "(ucast (ucast (w :: 'a::len word) :: 8 word) :: 'a word) OR push_bit 8 (take_bit m (drop_bit 8 w)) = take_bit (8 + m) w"
  by (rule bit_word_eqI) (auto simp: bit_simps)

lemma le_decode_encode: "(le_decode (le_encode n w) :: 'a::len word) = take_bit (8 * n) w"
  by (induction n arbitrary: w) (simp_all add: le_step)

lemma length_le_encode: "length (le_encode n w) = n"
  by (induction n arbitrary: w) simp_all

lemma length_PutUint [simp]:
  "length (PutUint16 a) = 2" "length (PutUint32 b) = 4" "length (PutUint64 c) = 8"
  by (simp_all add: PutUint16_def PutUint32_def PutUint64_def length_le_encode del: le_encode.simps)

lemma Uint16_PutUint16: "Uint16 (PutUint16 v @ rest) = v"
  by (simp add: Uint16_def PutUint16_def length_le_encode le_decode_encode take_bit_word_eq_self del: le_encode.simps)

lemma Uint32_PutUint32: "Uint32 (PutUint32 v @ rest) = v"
  by (simp add: Uint32_def PutUint32_def length_le_encode le_decode_encode take_bit_word_eq_self del: le_encode.simps)

lemma Uint64_PutUint64: "Uint64 (PutUint64 v @ rest) = v"
  by (simp add: Uint64_def PutUint64_def length_le_encode le_decode_encode take_bit_word_eq_self del: le_encode.simps)

lemma Uint16_PutUint16_Nil: "Uint16 (PutUint16 v) = v"
  using Uint16_PutUint16 [of v "[]"] by simp

lemma Uint32_PutUint32_Nil: "Uint32 (PutUint32 v) = v"
  using Uint32_PutUint32 [of v "[]"] by simp

lemma file_Write_at_end:
  assumes "pos f = length (content f)" and "file_Write f bs = Inr f'"
  shows "content f' = content f @ bs \<and> pos f' = length (content f') \<and> length (content f') \<le> max_offset"
  using assms by (auto simp: file_Write_def split: if_splits)

lemma file_Write_over_prefix:
  assumes "pos f = 0" and "content f = old @ rest" and "length old = length bs" and "length bs \<le> max_offset"
  shows "file_Write f bs = Inr (f\<lparr>content := bs @ rest, pos := length bs\<rparr>)"
  using assms by (simp add: file_Write_def)

lemma string_of_bytes_of_string: "string_of_bytes (bytes_of_string s) = s"
  by (induction s) (simp_all add: string_of_bytes_def bytes_of_string_def unat_of_nat)

lemma length_bytes_of_string [simp]: "length (bytes_of_string s) = length s"
  by (simp add: bytes_of_string_def)


section \<open>Documents through JSON\<close>

lemma UnmarshalJSON_field_MarshalJSON:
  "UnmarshalJSON_field k [(''type'', JString (FieldValue_Type v)), (''value'', FieldValue_json v)]
     = Inr (decoded v)"
proof (cases v)
  case (OtherValue fieldType j)
  then show ?thesis
    by (auto simp: UnmarshalJSON_field_def json_get_def value_member_def FieldTypeText_def
        FieldTypeKeyword_def FieldTypeNumeric_def FieldTypeBoolean_def
        split: json.splits option.splits)
qed (simp_all add: UnmarshalJSON_field_def json_get_def FieldTypeText_def FieldTypeKeyword_def
        FieldTypeNumeric_def FieldTypeVector_def FieldTypeBoolean_def FieldTypeDate_def)

lemma UnmarshalJSON_fields_MarshalJSON:
  "UnmarshalJSON_fields
     (map (\<lambda>(k, v). (k, JObject [(''type'', JString (FieldValue_Type v)), (''value'', FieldValue_json v)])) fs)
     = Inr (decoded_fields fs)"
proof (induction fs)
  case Nil
  show ?case
    by (simp add: decoded_fields_def map_filter_simps)
next
  case (Cons f fs)
  obtain k v where f: "f = (k, v)"
    by (cases f)
  from Cons.IH show ?case
    by (cases "decoded v")
       (simp_all add: f UnmarshalJSON_field_MarshalJSON decoded_fields_def map_filter_simps)
qed

lemma Document_UnmarshalJSON_MarshalJSON:
  assumes "- (2 ^ 63) \<le> Version d" and "Version d < 2 ^ 63"
  shows "Document_UnmarshalJSON (Document_MarshalJSON d)
           = Inr (d\<lparr>Fields := decoded_fields (Fields d)\<rparr>)"
  using assms
  by (simp add: Document_UnmarshalJSON_def Document_MarshalJSON_def json_string_member_def
      json_int64_member_def json_get_def UnmarshalJSON_fields_MarshalJSON)

lemma decoded_fields_carriers:
  assumes "\<forall>(k, v) \<in> set fs. \<forall>t j. v \<noteq> OtherValue t j"
  shows "decoded_fields fs = filter (\<lambda>(k, v). decoded v \<noteq> None) fs"
  using assms
proof (induction fs)
  case Nil
  show ?case
    by (simp add: decoded_fields_def map_filter_simps)
next
  case (Cons f fs)
  obtain k v where f: "f = (k, v)"
    by (cases f)
  from Cons.prems have "\<forall>(k, v) \<in> set fs. \<forall>t j. v \<noteq> OtherValue t j"
    and v: "\<forall>t j. v \<noteq> OtherValue t j"
    by (simp_all add: f)
  from Cons.IH [OF this(1)] v show ?case
    by (cases v) (simp_all add: f decoded_fields_def map_filter_simps)
qed
section \<open>Posting list invariants\<close>

lemma AddPosting_loop_None:
  "AddPosting_loop ps d x = None \<longleftrightarrow> d \<notin> set (map DocID ps)"
  by (induction ps) auto

lemma AddPosting_loop_Some_ids:
  "AddPosting_loop ps d x = Some qs \<Longrightarrow> map DocID qs = map DocID ps"
  by (induction ps arbitrary: qs) (auto split: if_splits)

lemma AddPosting_loop_Some_freq:
  "AddPosting_loop ps d x = Some qs \<Longrightarrow>
   list_all (\<lambda>p. TermFreq p = int (length (Positions p))) ps \<Longrightarrow>
   list_all (\<lambda>p. TermFreq p = int (length (Positions p))) qs"
  by (induction ps arbitrary: qs) (auto split: if_splits)

lemma AddPosting_ok: "posting_list_ok pl \<Longrightarrow> posting_list_ok (AddPosting pl d x)"
proof (cases "AddPosting_loop (Postings pl) d x")
  case None
  assume ok: "posting_list_ok pl"
  from None have "d \<notin> set (map DocID (Postings pl))"
    using AddPosting_loop_None [of "Postings pl" d x] by simp
  with ok None show ?thesis
    by (simp add: posting_list_ok_def AddPosting_def)
next
  case (Some qs)
  assume ok: "posting_list_ok pl"
  from Some have ids: "map DocID qs = map DocID (Postings pl)"
    by (rule AddPosting_loop_Some_ids)
  from ids have len: "length qs = length (Postings pl)"
    by (metis length_map)
  from Some ok have "list_all (\<lambda>p. TermFreq p = int (length (Positions p))) qs"
    by (auto simp: posting_list_ok_def intro: AddPosting_loop_Some_freq)
  with ok Some ids len show ?thesis
    by (simp add: posting_list_ok_def AddPosting_def)
qed

lemma AddPostings_ok: "posting_list_ok pl \<Longrightarrow> posting_list_ok (AddPostings pl calls)"
  unfolding AddPostings_def
  by (induction calls arbitrary: pl) (auto simp: AddPosting_ok)

section \<open>The stemming step\<close>

lemma HasSuffix_strip:
  assumes "HasSuffix w suffix" and "length suffix = n"
  shows "take (length w - n) w @ suffix = w"
proof -
  from assms have "drop (length w - n) w = suffix"
    unfolding HasSuffix_def by blast
  then show ?thesis
    using append_take_drop_id [of "length w - n" w] by simp
qed

text \<open>
  Claim C8, as amended. \<open>stemWord\<close> leaves every word of at most 3 bytes unchanged.
  From a longer word it strips the first of the suffixes -ing (3 bytes), -ed (2 bytes)
  and -s (1 byte) that the word ends with, and leaves a word with none of them unchanged.
  With stemming enabled, \<open>Analyze\<close> applies \<open>stemWord\<close> to every token that the
  tokenizer and the stop-word filter produce.
\<close>

theorem stemWord_strips_above_three_bytes:
  "(length w \<le> 3 \<longrightarrow> stemWord w = w) \<and>
   (length w > 3 \<and> HasSuffix w ''ing'' \<longrightarrow> stemWord w @ ''ing'' = w) \<and>
   (length w > 3 \<and> \<not> HasSuffix w ''ing'' \<and> HasSuffix w ''ed'' \<longrightarrow> stemWord w @ ''ed'' = w) \<and>
   (length w > 3 \<and> \<not> HasSuffix w ''ing'' \<and> \<not> HasSuffix w ''ed'' \<and> HasSuffix w ''s''
      \<longrightarrow> stemWord w @ ''s'' = w) \<and>
   (\<not> HasSuffix w ''ing'' \<and> \<not> HasSuffix w ''ed'' \<and> \<not> HasSuffix w ''s'' \<longrightarrow> stemWord w = w) \<and>
   (useStemming a \<longrightarrow> Analyze U a text = map stemWord (Analyze U (a\<lparr>useStemming := False\<rparr>) text))"
proof -
  have ing: "HasSuffix w ''ing'' \<Longrightarrow> take (length w - 3) w @ ''ing'' = w"
    by (rule HasSuffix_strip) simp_all
  have ed: "HasSuffix w ''ed'' \<Longrightarrow> take (length w - 2) w @ ''ed'' = w"
    by (rule HasSuffix_strip) simp_all
  have s: "HasSuffix w ''s'' \<Longrightarrow> take (length w - 1) w @ ''s'' = w"
    by (rule HasSuffix_strip) simp_all
  show ?thesis
    using ing ed s by (simp add: stemWord_def Analyze_def stem_def Let_def del: One_nat_def)
qed

lemmas tokenizer_eval = Tokenize_def TokenizeWithPositions_def ascii_unicode_def ascii_lower_def
  DecodeRuneInString_def RuneError_def

lemma stemming_sample_tokens:
  "Tokenize ascii_unicode ''The cats walked'' = [''the'', ''cats'', ''walked'']"
  by (simp add: tokenizer_eval)

lemma stemming_sample_suffixes:
  "length ''running'' > 3 \<and> HasSuffix ''running'' ''ing'' \<and>
   length ''walked'' > 3 \<and> \<not> HasSuffix ''walked'' ''ing'' \<and> HasSuffix ''walked'' ''ed'' \<and>
   length ''cats'' > 3 \<and> \<not> HasSuffix ''cats'' ''ing'' \<and> \<not> HasSuffix ''cats'' ''ed'' \<and> HasSuffix ''cats'' ''s'' \<and>
   length ''gas'' \<le> 3 \<and>
   \<not> HasSuffix ''novel'' ''ing'' \<and> \<not> HasSuffix ''novel'' ''ed'' \<and> \<not> HasSuffix ''novel'' ''s'' \<and>
   useStemming (NewAnalyzerWithOptions True True)"
  by (simp add: HasSuffix_def NewAnalyzerWithOptions_def)

lemma stemming_sample_unstemmed:
  "Analyze ascii_unicode ((NewAnalyzerWithOptions True True)\<lparr>useStemming := False\<rparr>) ''The cats walked''
     = [''cats'', ''walked'']"
  by (simp add: Analyze_def NewAnalyzerWithOptions_def stemming_sample_tokens filterStopWords_def
      StopWords_def)

theorem stemWord_strips_above_three_bytes_witness:
  "length ''running'' > 3 \<and> HasSuffix ''running'' ''ing'' \<and> stemWord ''running'' @ ''ing'' = ''running'' \<and>
   length ''walked'' > 3 \<and> HasSuffix ''walked'' ''ed'' \<and> stemWord ''walked'' @ ''ed'' = ''walked'' \<and>
   length ''cats'' > 3 \<and> HasSuffix ''cats'' ''s'' \<and> stemWord ''cats'' @ ''s'' = ''cats'' \<and>
   length ''gas'' \<le> 3 \<and> stemWord ''gas'' = ''gas'' \<and>
   stemWord ''novel'' = ''novel'' \<and>
   useStemming (NewAnalyzerWithOptions True True) \<and>
   Analyze ascii_unicode (NewAnalyzerWithOptions True True) ''The cats walked''
     = map stemWord [''cats'', ''walked'']"
  using stemWord_strips_above_three_bytes [of "''running''"]
    stemWord_strips_above_three_bytes [of "''walked''"]
    stemWord_strips_above_three_bytes [of "''cats''"]
    stemWord_strips_above_three_bytes [of "''gas''"]
    stemWord_strips_above_three_bytes
      [of "''novel''" "NewAnalyzerWithOptions True True" ascii_unicode "''The cats walked''"]
    stemming_sample_suffixes stemming_sample_unstemmed
  by metis

text \<open>
  Claim C8 as stated fails: "sing" has 4 bytes, which is not more than the 3 stripped
  bytes plus 1, yet \<open>stemWord\<close> strips -ing from it; and "gas" has 3 bytes, more than
  the 1 stripped byte plus 1, ends in -s, and is left unchanged.
\<close>

theorem stemWord_length_rule_counterexample:
  "stemWord ''sing'' = ''s'' \<and> \<not> (length ''sing'' > 3 + 1) \<and>
   stemWord ''gas'' = ''gas'' \<and> HasSuffix ''gas'' ''s'' \<and> length ''gas'' > 1 + 1"
  by (simp add: stemWord_def HasSuffix_def)

section \<open>Posting lists of an inverted index\<close>

lemma IndexDocument_loop_ok:
  "index_ok idx \<Longrightarrow> index_ok (IndexDocument_loop idx docID fieldName tokens positions)"
proof (induction idx docID fieldName tokens positions rule: IndexDocument_loop.induct)
  case (2 idx docID fieldName token tokens p positions)
  let ?k = "fieldName @ '':'' @ token"
  let ?l = "case termDict idx ?k of Some pl \<Rightarrow> pl | None \<Rightarrow> NewPostingList"
  let ?idx = "idx\<lparr>termDict := (termDict idx)(?k \<mapsto> AddPosting ?l docID p),
                    totalTerms := totalTerms idx + 1\<rparr>"
  have new: "posting_list_ok NewPostingList"
    by (simp add: posting_list_ok_def NewPostingList_def)
  have "posting_list_ok ?l"
    using "2.prems" new by (cases "termDict idx ?k") (auto simp: index_ok_def)
  then have step: "posting_list_ok (AddPosting ?l docID p)"
    by (rule AddPosting_ok)
  have "index_ok ?idx"
    using "2.prems" step by (auto simp: index_ok_def)
  then have "index_ok (IndexDocument_loop ?idx docID fieldName tokens positions)"
    using "2.IH" by simp
  then show ?case
    by (simp add: Let_def)
qed simp_all

lemma IndexDocument_ok:
  assumes "index_ok idx"
  shows "index_ok (IndexDocument U idx docID fieldName text)"
proof -
  obtain tokens positions where a: "AnalyzeWithPositions U (analyzer idx) text = (tokens, positions)"
    by (cases "AnalyzeWithPositions U (analyzer idx) text")
  have "index_ok (IndexDocument_loop idx docID fieldName tokens positions)"
    using assms by (rule IndexDocument_loop_ok)
  then show ?thesis
    by (simp add: IndexDocument_def a Let_def index_ok_def)
qed

lemma IndexDocuments_ok:
  "index_ok idx \<Longrightarrow> index_ok (IndexDocuments U idx calls)"
  unfolding IndexDocuments_def
  by (induction calls arbitrary: idx) (auto simp: IndexDocument_ok)

text \<open>
  Claim C9. Every posting list built from a new list by any sequence of \<open>AddPosting\<close>
  calls has \<open>DocFreq\<close> equal to its number of postings, every posting's \<open>TermFreq\<close>
  equal to the length of its positions, and pairwise distinct document IDs; and so has
  every posting list in the term dictionary of an index built from a new index by any
  sequence of \<open>IndexDocument\<close> calls, whatever its analyzer.
\<close>

theorem AddPosting_invariants:
  "DocFreq (AddPostings NewPostingList calls) = int (length (Postings (AddPostings NewPostingList calls))) \<and>
   (\<forall>p \<in> set (Postings (AddPostings NewPostingList calls)). TermFreq p = int (length (Positions p))) \<and>
   distinct (GetDocIDs (AddPostings NewPostingList calls)) \<and>
   (\<forall>key pl. termDict (IndexDocuments U (NewInvertedIndexWithAnalyzer a) docs) key = Some pl \<longrightarrow>
      DocFreq pl = int (length (Postings pl)) \<and>
      (\<forall>p \<in> set (Postings pl). TermFreq p = int (length (Positions p))) \<and>
      distinct (GetDocIDs pl))"
proof -
  have "posting_list_ok NewPostingList"
    by (simp add: posting_list_ok_def NewPostingList_def)
  then have "posting_list_ok (AddPostings NewPostingList calls)"
    by (rule AddPostings_ok)
  moreover have "index_ok (NewInvertedIndexWithAnalyzer a)"
    by (simp add: index_ok_def NewInvertedIndexWithAnalyzer_def)
  then have "index_ok (IndexDocuments U (NewInvertedIndexWithAnalyzer a) docs)"
    by (rule IndexDocuments_ok)
  ultimately show ?thesis
    by (simp add: posting_list_ok_def GetDocIDs_def list_all_iff index_ok_def)
qed

lemma sample_tokens:
  "AnalyzeWithPositions ascii_unicode NewAnalyzer ''classic novel'' = ([''classic'', ''novel''], [0, 8])"
  "AnalyzeWithPositions ascii_unicode NewAnalyzer ''novel'' = ([''novel''], [0])"
  by (simp_all add: AnalyzeWithPositions_def NewAnalyzer_def tokenizer_eval StopWords_def)

lemma sample_terms:
  "Analyze ascii_unicode NewAnalyzer ''the'' = []"
  "Analyze ascii_unicode NewAnalyzer ''novel'' = [''novel'']"
  "Analyze ascii_unicode NewAnalyzer ''classic'' = [''classic'']"
  by (simp_all add: Analyze_def NewAnalyzer_def tokenizer_eval filterStopWords_def StopWords_def)

lemma sample_index_eq:
  "sample_index =
     \<lparr>termDict =
        [''title:classic'' \<mapsto> \<lparr>Postings = [\<lparr>DocID = ''1'', TermFreq = 1, Positions = [0]\<rparr>], DocFreq = 1\<rparr>,
         ''title:novel'' \<mapsto> \<lparr>Postings = [\<lparr>DocID = ''1'', TermFreq = 1, Positions = [8]\<rparr>], DocFreq = 1\<rparr>,
         ''description:novel'' \<mapsto> \<lparr>Postings = [\<lparr>DocID = ''2'', TermFreq = 1, Positions = [0]\<rparr>], DocFreq = 1\<rparr>],
      analyzer = NewAnalyzer, totalTerms = 3, totalDocs = 2\<rparr>"
  by (simp add: sample_index_def IndexDocuments_def IndexDocument_def NewInvertedIndex_def sample_tokens
      AddPosting_def NewPostingList_def)

lemma sample_AddPostings:
  "AddPostings NewPostingList [(''1'', 0), (''2'', 3), (''1'', 7)] =
     \<lparr>Postings = [\<lparr>DocID = ''1'', TermFreq = 2, Positions = [0, 7]\<rparr>,
                  \<lparr>DocID = ''2'', TermFreq = 1, Positions = [3]\<rparr>],
      DocFreq = 2\<rparr>"
  by (simp add: AddPostings_def AddPosting_def NewPostingList_def)

theorem AddPosting_invariants_witness:
  "Postings (AddPostings NewPostingList [(''1'', 0), (''2'', 3), (''1'', 7)]) =
     [\<lparr>DocID = ''1'', TermFreq = 2, Positions = [0, 7]\<rparr>, \<lparr>DocID = ''2'', TermFreq = 1, Positions = [3]\<rparr>] \<and>
   DocFreq (AddPostings NewPostingList [(''1'', 0), (''2'', 3), (''1'', 7)]) = 2 \<and>
   distinct (GetDocIDs (AddPostings NewPostingList [(''1'', 0), (''2'', 3), (''1'', 7)])) \<and>
   termDict (IndexDocuments ascii_unicode (NewInvertedIndexWithAnalyzer NewAnalyzer)
       [(''1'', ''title'', ''classic novel''), (''2'', ''description'', ''novel'')]) ''title:novel''
     = Some \<lparr>Postings = [\<lparr>DocID = ''1'', TermFreq = 1, Positions = [8]\<rparr>], DocFreq = 1\<rparr> \<and>
   DocFreq \<lparr>Postings = [\<lparr>DocID = ''1'', TermFreq = 1, Positions = [8]\<rparr>], DocFreq = 1\<rparr>
     = int (length [\<lparr>DocID = ''1'', TermFreq = 1, Positions = [8::int]\<rparr>])"
proof -
  have idx: "IndexDocuments ascii_unicode (NewInvertedIndexWithAnalyzer NewAnalyzer)
       [(''1'', ''title'', ''classic novel''), (''2'', ''description'', ''novel'')] = sample_index"
    by (simp add: sample_index_def NewInvertedIndexWithAnalyzer_def NewInvertedIndex_def)
  have look: "termDict sample_index ''title:novel''
      = Some \<lparr>Postings = [\<lparr>DocID = ''1'', TermFreq = 1, Positions = [8]\<rparr>], DocFreq = 1\<rparr>"
    by (simp add: sample_index_eq)
  show ?thesis
    using AddPosting_invariants [of "[(''1'', 0), (''2'', 3), (''1'', 7)]" ascii_unicode NewAnalyzer
        "[(''1'', ''title'', ''classic novel''), (''2'', ''description'', ''novel'')]"]
    by (simp add: idx look sample_AddPostings)
qed

section \<open>Conjunctive search\<close>

lemma lookup_fields_None:
  "lookup_fields dict order token = None \<longleftrightarrow> (\<forall>f \<in> set order. dict (f @ '':'' @ token) = None)"
  by (induction order) (auto split: option.splits)

lemma lookup_fields_range_order:
  "range_order (getAllFieldNames idx) order \<Longrightarrow>
   lookup_fields (termDict idx) order token = None \<longleftrightarrow> \<not> any_field_match idx token"
  by (auto simp: lookup_fields_None range_order_def any_field_match_def)

lemma SearchMultipleTerms_loop_eq:
  assumes "\<forall>j. range_order (getAllFieldNames idx) (ord j)"
  shows "SearchMultipleTerms_loop U idx ord i terms acc =
     (if \<exists>term \<in> set terms. no_match U idx term then None
      else Some (acc @ retrieved U idx ord i terms))"
proof (induction terms arbitrary: i acc)
  case Nil
  show ?case by simp
next
  case (Cons t ts)
  show ?case
  proof (cases "Analyze U (analyzer idx) t")
    case Nil
    then show ?thesis
      using Cons.IH [of "Suc i" acc] by (simp add: no_match_def Search_def)
  next
    case (Cons token rest)
    note tok = this
    show ?thesis
    proof (cases "lookup_fields (termDict idx) (ord i) token")
      case None
      with assms have "\<not> any_field_match idx token"
        using lookup_fields_range_order [of idx "ord i" token] by blast
      with tok None show ?thesis
        by (simp add: no_match_def)
    next
      case (Some pl)
      with assms have "any_field_match idx token"
        using lookup_fields_range_order [of idx "ord i" token] by force
      with tok Some show ?thesis
        using Cons.IH [of "Suc i" "acc @ [pl]"] by (simp add: no_match_def Search_def)
    qed
  qed
qed

lemma GetPosting_None: "GetPosting ps d = None \<longleftrightarrow> d \<notin> set (map DocID ps)"
  by (induction ps) auto

lemma intersect_foldl:
  "foldl (\<lambda>result posting.
            if P posting
            then result\<lparr>Postings := Postings result @ [posting], DocFreq := DocFreq result + 1\<rparr>
            else result) r ps =
   r\<lparr>Postings := Postings r @ filter P ps, DocFreq := DocFreq r + int (length (filter P ps))\<rparr>"
  by (induction ps arbitrary: r) auto

lemma in_all_lists_iff:
  "in_all_lists others d \<longleftrightarrow> list_all (\<lambda>l. d \<in> set (GetDocIDs l)) others"
  by (simp add: in_all_lists_def GetPosting_None GetDocIDs_def)

lemma Postings_intersect:
  "ls \<noteq> [] \<Longrightarrow>
   intersectPostingLists (l # ls) =
     \<lparr>Postings = filter (\<lambda>p. list_all (\<lambda>other. DocID p \<in> set (GetDocIDs other)) ls) (Postings l),
      DocFreq = int (length (filter (\<lambda>p. list_all (\<lambda>other. DocID p \<in> set (GetDocIDs other)) ls) (Postings l)))\<rparr>"
  by (cases ls) (simp_all add: intersectPostingLists_def intersect_foldl NewPostingList_def in_all_lists_iff)

lemma GetDocIDs_intersect:
  "GetDocIDs (intersectPostingLists (l # ls)) =
   filter (\<lambda>d. list_all (\<lambda>other. d \<in> set (GetDocIDs other)) ls) (GetDocIDs l)"
proof (cases ls)
  case Nil
  then show ?thesis by (simp add: intersectPostingLists_def)
next
  case (Cons x xs)
  then have "ls \<noteq> []" by simp
  then show ?thesis
    by (simp add: Postings_intersect GetDocIDs_def filter_map comp_def)
qed

text \<open>
  Claim C4, as amended. For a non-empty list of terms, \<open>SearchMultipleTerms\<close> skips
  every term whose analysis yields no token (a stop word, for one). If one of the other
  terms has no match under the any-field lookup, or if no term is left, the result is an
  empty posting list; otherwise it is the intersection of the retrieved posting lists:
  the postings of the first retrieved list, in its order and with its term frequencies
  and positions, whose document ID occurs in every other retrieved list, with \<open>DocFreq\<close>
  their number. (With one retrieved list the result is that list.)
\<close>

theorem SearchMultipleTerms_skips_tokenless_terms:
  assumes "terms \<noteq> []" and "\<forall>i. range_order (getAllFieldNames idx) (ord i)"
  shows "SearchMultipleTerms U idx ord terms =
           Some (if (\<exists>term \<in> set terms. no_match U idx term) \<or> retrieved U idx ord 0 terms = []
                 then NewPostingList
                 else intersectPostingLists (retrieved U idx ord 0 terms)) \<and>
         intersectPostingLists [l] = l \<and>
         (ls \<noteq> [] \<longrightarrow>
            Postings (intersectPostingLists (l # ls)) =
              filter (\<lambda>p. \<forall>other \<in> set ls. DocID p \<in> set (GetDocIDs other)) (Postings l) \<and>
            DocFreq (intersectPostingLists (l # ls)) =
              int (length (Postings (intersectPostingLists (l # ls)))))"
proof -
  have "SearchMultipleTerms U idx ord terms =
           Some (if (\<exists>term \<in> set terms. no_match U idx term) \<or> retrieved U idx ord 0 terms = []
                 then NewPostingList
                 else intersectPostingLists (retrieved U idx ord 0 terms))"
    using assms by (simp add: SearchMultipleTerms_def SearchMultipleTerms_loop_eq)
  moreover have "intersectPostingLists [l] = l"
    by (simp add: intersectPostingLists_def)
  ultimately show ?thesis
    by (simp add: Postings_intersect list_all_iff)
qed

lemma Collect_insert_if:
  "{x \<in> insert a A. P x} = (if P a then insert a {x \<in> A. P x} else {x \<in> A. P x})"
  by auto

lemma sample_fields: "getAllFieldNames sample_index = {''title'', ''description''}"
proof -
  have "dom (termDict sample_index) = {''title:classic'', ''title:novel'', ''description:novel''}"
    unfolding sample_index_eq by auto
  then show ?thesis
    unfolding getAllFieldNames_def
    by (simp only: Collect_insert_if) (simp add: indexOf_def insert_commute)
qed

lemma sample_orders:
  "range_order (getAllFieldNames sample_index) [''title'', ''description'']"
  "range_order (getAllFieldNames sample_index) [''description'', ''title'']"
  by (auto simp: sample_fields range_order_def)

lemma sample_search_the_novel:
  "SearchMultipleTerms ascii_unicode sample_index (\<lambda>i. [''title'', ''description'']) [''the'', ''novel''] =
     Some \<lparr>Postings = [\<lparr>DocID = ''1'', TermFreq = 1, Positions = [8]\<rparr>], DocFreq = 1\<rparr>"
  by (simp add: sample_index_eq SearchMultipleTerms_def sample_terms intersectPostingLists_def)

lemma sample_search_novel_classic:
  "SearchMultipleTerms ascii_unicode sample_index (\<lambda>i. [''title'', ''description'']) [''novel'', ''classic''] =
     Some \<lparr>Postings = [\<lparr>DocID = ''1'', TermFreq = 1, Positions = [8]\<rparr>], DocFreq = 1\<rparr>"
  by (simp add: sample_index_eq SearchMultipleTerms_def sample_terms intersectPostingLists_def
     in_all_lists_def NewPostingList_def)

lemma sample_search_classic_novel_other_order:
  "SearchMultipleTerms ascii_unicode sample_index (\<lambda>i. [''description'', ''title'']) [''classic'', ''novel''] =
     Some \<lparr>Postings = [], DocFreq = 0\<rparr>"
  by (simp add: sample_index_eq SearchMultipleTerms_def sample_terms intersectPostingLists_def
     in_all_lists_def NewPostingList_def)

lemma sample_retrieved:
  "retrieved ascii_unicode sample_index (\<lambda>i. [''title'', ''description'']) 0 [''the'', ''novel''] =
     [\<lparr>Postings = [\<lparr>DocID = ''1'', TermFreq = 1, Positions = [8]\<rparr>], DocFreq = 1\<rparr>]"
  by (simp add: sample_index_eq Search_def sample_terms)

theorem SearchMultipleTerms_skips_tokenless_terms_witness:
  "[''the'', ''novel''] \<noteq> [] \<and>
   (\<forall>i::nat. range_order (getAllFieldNames sample_index) [''title'', ''description'']) \<and>
   \<not> no_match ascii_unicode sample_index ''the'' \<and>
   \<not> no_match ascii_unicode sample_index ''novel'' \<and>
   SearchMultipleTerms ascii_unicode sample_index (\<lambda>i. [''title'', ''description'']) [''the'', ''novel'']
     = Some (intersectPostingLists
         [\<lparr>Postings = [\<lparr>DocID = ''1'', TermFreq = 1, Positions = [8]\<rparr>], DocFreq = 1\<rparr>])"
proof -
  have ne: "[''the'', ''novel''] \<noteq> ([] :: string list)"
    by simp
  have ord: "\<forall>i::nat. range_order (getAllFieldNames sample_index) ((\<lambda>i. [''title'', ''description'']) i)"
    by (simp add: sample_orders)
  have m1: "\<not> no_match ascii_unicode sample_index ''the''"
    by (simp add: no_match_def sample_index_eq sample_terms)
  have "any_field_match sample_index ''novel''"
    unfolding any_field_match_def sample_fields by (simp add: sample_index_eq)
  then have m2: "\<not> no_match ascii_unicode sample_index ''novel''"
    by (simp add: no_match_def sample_index_eq sample_terms)
  show ?thesis
    using SearchMultipleTerms_skips_tokenless_terms [OF ne ord, of ascii_unicode] m1 m2 ord
    by (simp add: sample_retrieved del: retrieved.simps)
qed

text \<open>
  Claim C4 as stated fails: "the" is a stop word, so its analysis yields no token, and
  \<open>SearchMultipleTerms\<close> on "the", "novel" returns the posting list of "novel", which is
  not empty.
\<close>

theorem SearchMultipleTerms_stop_word_counterexample:
  "Analyze ascii_unicode (analyzer sample_index) ''the'' = [] \<and>
   range_order (getAllFieldNames sample_index) [''title'', ''description''] \<and>
   SearchMultipleTerms ascii_unicode sample_index (\<lambda>i. [''title'', ''description'']) [''the'', ''novel'']
     = Some \<lparr>Postings = [\<lparr>DocID = ''1'', TermFreq = 1, Positions = [8]\<rparr>], DocFreq = 1\<rparr> \<and>
   SearchMultipleTerms ascii_unicode sample_index (\<lambda>i. [''title'', ''description'']) [''the'', ''novel'']
     \<noteq> Some NewPostingList"
  using sample_search_the_novel sample_orders(1) sample_terms(1)
  by (simp add: NewPostingList_def sample_index_eq)

text \<open>
  Claim C5, as amended. For every pair of terms \<open>a\<close> and \<open>b\<close> and every index state,
  whenever each of the two terms resolves to the same posting list in both calls (as it
  does when its token is indexed under at most one field, or when the field names are
  enumerated in the same order), \<open>SearchMultipleTerms [a, b]\<close> and
  \<open>SearchMultipleTerms [b, a]\<close> return posting lists with the same set of document IDs.
\<close>

theorem SearchMultipleTerms_commutes:
  assumes "Search U idx (ord 0) a = Search U idx (ord' 1) a"
    and "Search U idx (ord 1) b = Search U idx (ord' 0) b"
  shows "\<exists>p q. SearchMultipleTerms U idx ord [a, b] = Some p \<and>
               SearchMultipleTerms U idx ord' [b, a] = Some q \<and>
               set (GetDocIDs p) = set (GetDocIDs q)"
proof -
  have ids: "set (GetDocIDs (intersectPostingLists [x, y])) = set (GetDocIDs (intersectPostingLists [y, x]))" for x y
    by (auto simp: GetDocIDs_intersect)
  have one: "intersectPostingLists [x] = x" for x
    by (simp add: intersectPostingLists_def)
  show ?thesis
    using assms ids
    by (auto simp: SearchMultipleTerms_def Search_def one split: list.splits option.splits)
qed

theorem SearchMultipleTerms_commutes_witness:
  "Search ascii_unicode sample_index [''title'', ''description''] ''novel''
     = Search ascii_unicode sample_index [''title'', ''description''] ''novel'' \<and>
   Search ascii_unicode sample_index [''title'', ''description''] ''classic''
     = Search ascii_unicode sample_index [''title'', ''description''] ''classic'' \<and>
   (\<exists>p q. SearchMultipleTerms ascii_unicode sample_index (\<lambda>i. [''title'', ''description'']) [''novel'', ''classic'']
             = Some p \<and>
           SearchMultipleTerms ascii_unicode sample_index (\<lambda>i. [''title'', ''description'']) [''classic'', ''novel'']
             = Some q \<and>
           set (GetDocIDs p) = set (GetDocIDs q) \<and> GetDocIDs p = [''1''])"
  using SearchMultipleTerms_commutes
    [of ascii_unicode sample_index "\<lambda>i. [''title'', ''description'']" "''novel''"
        "\<lambda>i. [''title'', ''description'']" "''classic''"]
  by (auto simp: sample_search_novel_classic GetDocIDs_def)

text \<open>
  Claim C5 as stated fails: "novel" is indexed under the fields title (document 1) and
  description (document 2). When one call enumerates the field names as title,
  description and the other as description, title, the first returns document 1 and the
  second returns no document.
\<close>

theorem SearchMultipleTerms_order_counterexample:
  "range_order (getAllFieldNames sample_index) [''title'', ''description''] \<and>
   range_order (getAllFieldNames sample_index) [''description'', ''title''] \<and>
   set (GetDocIDs (the (SearchMultipleTerms ascii_unicode sample_index
          (\<lambda>i. [''title'', ''description'']) [''novel'', ''classic''])))
   \<noteq> set (GetDocIDs (the (SearchMultipleTerms ascii_unicode sample_index
          (\<lambda>i. [''description'', ''title'']) [''classic'', ''novel''])))"
  using sample_orders
  by (simp add: sample_search_novel_classic sample_search_classic_novel_other_order GetDocIDs_def)


section \<open>Index segments\<close>


lemma file_Write_at_end_eq:
  "file_Write (at_end c) bs =
     (if length c + length bs > max_offset then Inl FileTooLarge else Inr (at_end (c @ bs)))"
  by (simp add: file_Write_def at_end_def)

lemma file_ReadFull_reading_at:
  "length bs = n \<Longrightarrow> file_ReadFull (reading_at a (bs @ rest)) n = Inr (bs, reading_at (a @ bs) rest)"
  by (auto simp: file_ReadFull_def reading_at_def)

lemma file_ReadFull_PutUint16:
  "file_ReadFull (reading_at a (PutUint16 v @ rest)) 2 = Inr (PutUint16 v, reading_at (a @ PutUint16 v) rest)"
  by (rule file_ReadFull_reading_at) simp

lemma file_ReadFull_PutUint32:
  "file_ReadFull (reading_at a (PutUint32 v @ rest)) 4 = Inr (PutUint32 v, reading_at (a @ PutUint32 v) rest)"
  by (rule file_ReadFull_reading_at) simp

lemma unat_length_16: "n < 2 ^ 16 \<Longrightarrow> unat (of_nat n :: 16 word) = n"
  by (simp add: unat_of_nat take_bit_nat_eq_self)

lemma unat_length_32: "n < 2 ^ 32 \<Longrightarrow> unat (of_nat n :: 32 word) = n"
  by (simp add: unat_of_nat take_bit_nat_eq_self)

lemma uint_word_of_int_32: "0 \<le> x \<Longrightarrow> x < 2 ^ 32 \<Longrightarrow> uint (word_of_int x :: 32 word) = x"
  by (simp add: uint_word_of_int take_bit_int_eq_self)

lemma length_posting_bytes_empty:
  "Positions p = [] \<Longrightarrow> length (posting_bytes p) = 10 + length (DocID p)"
  by (simp add: posting_bytes_def)

lemma writePostingList_loop_storable:
  assumes "list_all storable_posting ps"
    and "length c + length (concat (map posting_bytes ps)) \<le> max_offset"
  shows "writePostingList_loop (at_end c) ps = Inr (at_end (c @ concat (map posting_bytes ps)))"
  using assms
proof (induction ps arbitrary: c)
  case Nil
  then show ?case by simp
next
  case (Cons p ps)
  from Cons.prems(1) have sp: "storable_posting p" and ps: "list_all storable_posting ps"
    by simp_all
  from sp have p: "Positions p = []"
    by (simp add: storable_posting_def)
  have pb: "posting_bytes p = PutUint16 (of_nat (length (DocID p))) @ bytes_of_string (DocID p)
     @ PutUint32 (word_of_int (TermFreq p)) @ PutUint32 0"
    by (simp add: posting_bytes_def p)
  from Cons.prems(2) have bound: "length c + (10 + length (DocID p)) + length (concat (map posting_bytes ps)) \<le> max_offset"
    by (simp add: length_posting_bytes_empty [OF p])
  then have "length (c @ posting_bytes p) + length (concat (map posting_bytes ps)) \<le> max_offset"
    by (simp add: length_posting_bytes_empty [OF p])
  from Cons.IH [OF ps this]
  have IH: "writePostingList_loop (at_end (c @ posting_bytes p)) ps
      = Inr (at_end (c @ posting_bytes p @ concat (map posting_bytes ps)))"
    by simp
  show ?case
    using bound by (simp add: file_Write_at_end_eq Let_def p IH [unfolded pb] pb)
qed

lemma writePostingList_storable:
  assumes "storable_list pl"
    and "length c + length (posting_list_bytes pl) \<le> max_offset"
  shows "writePostingList (at_end c) pl = Inr (at_end (c @ posting_list_bytes pl))"
proof -
  from assms(1) have ps: "list_all storable_posting (Postings pl)"
    by (simp add: storable_list_def)
  from assms(2) have "length (c @ PutUint32 (word_of_int (DocFreq pl)))
      + length (concat (map posting_bytes (Postings pl))) \<le> max_offset"
    by (simp add: posting_list_bytes_def)
  from writePostingList_loop_storable [OF ps this] assms(2) show ?thesis
    by (simp add: writePostingList_def posting_list_bytes_def file_Write_at_end_eq)
qed

lemma Write_loop_storable:
  assumes "list_all (\<lambda>term. length term < 2 ^ 16 \<and>
                      (case dict term of None \<Rightarrow> False | Some pl \<Rightarrow> storable_list pl)) order"
    and "length c + length (concat (map (term_bytes dict) order)) \<le> max_offset"
  shows "Write_loop (at_end c) dict order = Inr (at_end (c @ concat (map (term_bytes dict) order)))"
  using assms
proof (induction order arbitrary: c)
  case Nil
  then show ?case by simp
next
  case (Cons t order)
  from Cons.prems(1) obtain pl where pl: "dict t = Some pl" and st: "storable_list pl"
    and rest: "list_all (\<lambda>term. length term < 2 ^ 16 \<and>
                      (case dict term of None \<Rightarrow> False | Some pl \<Rightarrow> storable_list pl)) order"
    by (auto split: option.splits)
  have tb: "term_bytes dict t = PutUint16 (of_nat (length t)) @ bytes_of_string t @ posting_list_bytes pl"
    by (simp add: term_bytes_def pl)
  define c1 where "c1 = c @ PutUint16 (of_nat (length t)) @ bytes_of_string t"
  from Cons.prems(2) have bound: "length c1 + length (posting_list_bytes pl)
      + length (concat (map (term_bytes dict) order)) \<le> max_offset"
    by (simp add: tb c1_def)
  then have b1: "length c1 + length (posting_list_bytes pl) \<le> max_offset"
    by simp
  from bound have "length (c1 @ posting_list_bytes pl) + length (concat (map (term_bytes dict) order)) \<le> max_offset"
    by simp
  from Cons.IH [OF rest this]
  have IH: "Write_loop (at_end (c1 @ posting_list_bytes pl)) dict order
      = Inr (at_end (c @ concat (map (term_bytes dict) (t # order))))"
    by (simp add: tb c1_def)
  have w: "file_Write (at_end c) (PutUint16 (of_nat (length t))) = Inr (at_end (c @ PutUint16 (of_nat (length t))))"
    using bound by (simp add: file_Write_at_end_eq c1_def)
  have w2: "file_Write (at_end (c @ PutUint16 (of_nat (length t)))) (bytes_of_string t) = Inr (at_end c1)"
    using bound by (simp add: file_Write_at_end_eq c1_def)
  show ?case
    by (simp add: pl Let_def w w2 writePostingList_storable [OF st b1] IH del: list.map concat.simps)
qed

lemma IndexSegment_Write_storable:
  assumes "storable index order"
  shows "IndexSegment_Write index order = Inr (at_end (index_segment_bytes index order))"
proof -
  from assms have a: "list_all (\<lambda>term. length term < 2 ^ 16 \<and>
        (case termDict index term of None \<Rightarrow> False | Some pl \<Rightarrow> storable_list pl)) order"
    and b: "length (IndexSegment_header_of (of_nat (length order)))
        + length (concat (map (term_bytes (termDict index)) order)) \<le> max_offset"
    by (simp_all add: storable_def index_segment_bytes_def)
  have e: "\<lparr>content = [], pos = 0\<rparr> = at_end []"
    by (simp add: at_end_def)
  from Write_loop_storable [OF a b] b show ?thesis
    by (simp add: IndexSegment_Write_def Let_def e file_Write_at_end_eq index_segment_bytes_def
        IndexSegment_header_of_def [symmetric])
qed


lemma readPostingList_loop_storable:
  assumes "list_all storable_posting ps"
  shows "readPostingList_loop (reading_at a (concat (map posting_bytes ps) @ rest)) (length ps) acc
           = Inr (acc @ ps, reading_at (a @ concat (map posting_bytes ps)) rest)"
  using assms
proof (induction ps arbitrary: a acc)
  case Nil
  then show ?case by simp
next
  case (Cons p ps)
  from Cons.prems have sp: "storable_posting p" and ps: "list_all storable_posting ps"
    by simp_all
  from sp have p: "Positions p = []" and d: "length (DocID p) < 2 ^ 16"
    and t: "0 \<le> TermFreq p" "TermFreq p < 2 ^ 32"
    by (simp_all add: storable_posting_def)
  have pb: "posting_bytes p = PutUint16 (of_nat (length (DocID p))) @ bytes_of_string (DocID p)
     @ PutUint32 (word_of_int (TermFreq p)) @ PutUint32 0"
    by (simp add: posting_bytes_def p)
  have rec: "\<lparr>DocID = DocID p, TermFreq = TermFreq p, Positions = []\<rparr> = p"
    using p by simp
  have r: "file_ReadFull
       (reading_at (a @ PutUint16 (of_nat (length (DocID p))))
          (bytes_of_string (DocID p) @ more)) (length (DocID p))
      = Inr (bytes_of_string (DocID p),
             reading_at ((a @ PutUint16 (of_nat (length (DocID p)))) @ bytes_of_string (DocID p)) more)" for more
    by (rule file_ReadFull_reading_at) simp
  show ?case
    using Cons.IH [OF ps, of "a @ posting_bytes p" "acc @ [p]"]
    by (simp add: pb file_ReadFull_PutUint16 file_ReadFull_PutUint32 Uint16_PutUint16_Nil
        Uint32_PutUint32_Nil unat_length_16 [OF d] uint_word_of_int_32 [OF t] r
        string_of_bytes_of_string rec)
qed

lemma readPostingList_storable:
  assumes "storable_list pl"
  shows "readPostingList (reading_at a (posting_list_bytes pl @ rest))
           = Inr (pl, reading_at (a @ posting_list_bytes pl) rest)"
proof -
  from assms have ps: "list_all storable_posting (Postings pl)"
    and n: "length (Postings pl) < 2 ^ 32" and df: "DocFreq pl = int (length (Postings pl))"
    by (simp_all add: storable_list_def)
  have u: "unat (word_of_int (DocFreq pl) :: 32 word) = length (Postings pl)"
    using unat_length_32 [OF n] by (simp add: df)
  have v: "uint (word_of_int (DocFreq pl) :: 32 word) = DocFreq pl"
    using n by (intro uint_word_of_int_32) (simp_all add: df)
  have rec: "\<lparr>Postings = Postings pl, DocFreq = DocFreq pl\<rparr> = pl"
    by simp
  show ?thesis
    using readPostingList_loop_storable [OF ps, of "a @ PutUint32 (word_of_int (DocFreq pl))" rest "[]"]
    by (simp add: readPostingList_def posting_list_bytes_def file_ReadFull_PutUint32
        Uint32_PutUint32_Nil u v rec)
qed

lemma Read_loop_storable:
  assumes "list_all (\<lambda>term. length term < 2 ^ 16 \<and>
                      (case dict term of None \<Rightarrow> False | Some pl \<Rightarrow> storable_list pl)) order"
  shows "Read_loop (reading_at a (concat (map (term_bytes dict) order) @ rest)) (length order) m
           = Inr ((\<lambda>k. if k \<in> set order then dict k else m k),
                  reading_at (a @ concat (map (term_bytes dict) order)) rest)"
  using assms
proof (induction order arbitrary: a m)
  case Nil
  then show ?case by simp
next
  case (Cons t order)
  from Cons.prems obtain pl where pl: "dict t = Some pl" and st: "storable_list pl"
    and len: "length t < 2 ^ 16"
    and others: "list_all (\<lambda>term. length term < 2 ^ 16 \<and>
                      (case dict term of None \<Rightarrow> False | Some pl \<Rightarrow> storable_list pl)) order"
    by (auto split: option.splits)
  have tb: "term_bytes dict t = PutUint16 (of_nat (length t)) @ bytes_of_string t @ posting_list_bytes pl"
    by (simp add: term_bytes_def pl)
  have r: "file_ReadFull (reading_at (a @ PutUint16 (of_nat (length t))) (bytes_of_string t @ more)) (length t)
      = Inr (bytes_of_string t, reading_at ((a @ PutUint16 (of_nat (length t))) @ bytes_of_string t) more)" for more
    by (rule file_ReadFull_reading_at) simp
  have m: "(\<lambda>k. if k \<in> set order then dict k else (m(t \<mapsto> pl)) k)
      = (\<lambda>k. if k \<in> set (t # order) then dict k else m k)"
    by (auto simp: pl)
  have IH: "Read_loop
       (reading_at (a @ PutUint16 (of_nat (length t)) @ bytes_of_string t @ posting_list_bytes pl)
          (concat (map (term_bytes dict) order) @ rest))
       (length order) (m(t \<mapsto> pl))
     = Inr ((\<lambda>k. if k \<in> set (t # order) then dict k else m k),
            reading_at (a @ concat (map (term_bytes dict) (t # order))) rest)"
    using Cons.IH [OF others, of "a @ term_bytes dict t" "m(t \<mapsto> pl)"]
    unfolding m by (simp add: tb fun_upd_def)
  have rp: "readPostingList
       (reading_at (a @ PutUint16 (of_nat (length t)) @ bytes_of_string t)
          (posting_list_bytes pl @ concat (map (term_bytes dict) order) @ rest))
     = Inr (pl, reading_at (a @ PutUint16 (of_nat (length t)) @ bytes_of_string t @ posting_list_bytes pl)
                  (concat (map (term_bytes dict) order) @ rest))"
    using readPostingList_storable [OF st, of "a @ PutUint16 (of_nat (length t)) @ bytes_of_string t"
        "concat (map (term_bytes dict) order) @ rest"]
    by simp
  have "Read_loop (reading_at a (term_bytes dict t @ concat (map (term_bytes dict) order) @ rest))
          (Suc (length order)) m
     = Inr ((\<lambda>k. if k \<in> set (t # order) then dict k else m k),
            reading_at (a @ concat (map (term_bytes dict) (t # order))) rest)"
    by (simp add: tb file_ReadFull_PutUint16 Uint16_PutUint16_Nil unat_length_16 [OF len] r
        string_of_bytes_of_string rp IH del: set_simps list.map concat.simps)
  then show ?case
    by simp
qed


lemma length_IndexSegment_header_of [simp]: "length (IndexSegment_header_of n) = 18"
  by (simp add: IndexSegment_header_of_def IndexSegmentHeader_bytes_def IndexSegmentMagic_def)

lemma IndexSegment_header_decode:
  "IndexSegmentHeader_of_bytes (IndexSegment_header_of n) =
     \<lparr>inv_Magic = bytes_of_string IndexSegmentMagic, inv_Version = IndexSegmentVersion,
      TermCount = n, inv_Reserved = replicate 8 0\<rparr>"
  by (simp add: IndexSegmentHeader_of_bytes_def IndexSegment_header_of_def IndexSegmentHeader_bytes_def
      IndexSegmentMagic_def Uint16_PutUint16 Uint32_PutUint32)

lemma byte_mod_256: "(of_nat (unat x mod 256) :: byte) = x"
proof -
  have "unat x < 2 ^ 8"
    using unsigned_less [of x] by simp
  then have "unat x mod 256 = unat x"
    by simp
  then show ?thesis
    by simp
qed

lemma bytes_of_string_of_bytes: "bytes_of_string (string_of_bytes b) = b"
  by (induction b) (simp_all add: bytes_of_string_def string_of_bytes_def byte_mod_256)

lemma IndexSegment_Read_short:
  assumes "length bytes < IndexSegmentHeader_size"
  shows "IndexSegment_Read bytes
           = Inl (Wrapped ''failed to read header'' (if bytes = [] then EOF else ErrUnexpectedEOF))"
  using assms by (simp add: IndexSegment_Read_def file_ReadFull_def IndexSegmentHeader_size_def)

lemma IndexSegment_Read_magic:
  assumes "IndexSegmentHeader_size \<le> length bytes"
    and "take 4 bytes \<noteq> bytes_of_string IndexSegmentMagic"
  shows "IndexSegment_Read bytes = Inl InvalidMagic"
proof -
  have "string_of_bytes (take 4 bytes) \<noteq> IndexSegmentMagic"
    using assms(2) bytes_of_string_of_bytes [of "take 4 bytes"] by auto
  then show ?thesis
    using assms(1)
    by (auto simp: IndexSegment_Read_def file_ReadFull_def IndexSegmentHeader_size_def
        IndexSegmentHeader_of_bytes_def Let_def)
qed

lemma IndexSegment_Read_storable:
  assumes "storable index order"
  shows "IndexSegment_Read (index_segment_bytes index order)
           = Inr (NewInvertedIndex\<lparr>termDict := termDict index\<rparr>)"
proof -
  from assms have a: "list_all (\<lambda>term. length term < 2 ^ 16 \<and>
        (case termDict index term of None \<Rightarrow> False | Some pl \<Rightarrow> storable_list pl)) order"
    and n: "length order < 2 ^ 32" and keys: "set order = dom (termDict index)"
    by (simp_all add: storable_def range_order_def)
  define body where "body = concat (map (term_bytes (termDict index)) order)"
  have h: "file_ReadFull \<lparr>content = IndexSegment_header_of (of_nat (length order)) @ body, pos = 0\<rparr> 18
      = Inr (IndexSegment_header_of (of_nat (length order)),
             reading_at (IndexSegment_header_of (of_nat (length order))) body)"
    using file_ReadFull_reading_at [of "IndexSegment_header_of (of_nat (length order))" 18 "[]" body]
    by (simp add: reading_at_def)
  have m: "(\<lambda>k. if k \<in> set order then termDict index k else None) = termDict index"
    using keys by (auto simp: domIff)
  have l: "Read_loop (reading_at (IndexSegment_header_of (of_nat (length order))) body) (length order) Map.empty
      = Inr (termDict index, reading_at (IndexSegment_header_of (of_nat (length order)) @ body) [])"
    using Read_loop_storable [OF a, of "IndexSegment_header_of (of_nat (length order))" "[]" Map.empty]
    by (simp add: body_def m)
  have magic: "string_of_bytes (bytes_of_string IndexSegmentMagic) = IndexSegmentMagic"
    by (rule string_of_bytes_of_string)
  show ?thesis
    by (simp add: IndexSegment_Read_def index_segment_bytes_def body_def [symmetric]
        IndexSegmentHeader_size_def h IndexSegment_header_decode magic unat_length_32 [OF n] l)
qed

text \<open>
  \<open>Write\<close> on an index that holds a posting with positions: whatever the file
  operations do, the call returns an error, since \<open>encoding/binary\<close> refuses the
  \<open>[]int\<close> of the positions.
\<close>

lemma writePostingList_loop_positions:
  assumes "\<exists>p \<in> set ps. Positions p \<noteq> [] \<and> length (Positions p) < 2 ^ 32"
  shows "\<exists>e. writePostingList_loop f ps = Inl e"
  using assms
proof (induction ps arbitrary: f)
  case Nil
  then show ?case by simp
next
  case (Cons p ps)
  show ?case
  proof (cases "Positions p \<noteq> [] \<and> length (Positions p) < 2 ^ 32")
    case True
    then have "unat (of_nat (length (Positions p)) :: 32 word) \<noteq> 0"
      by (simp add: unat_length_32)
    then have "(of_nat (length (Positions p)) :: 32 word) > 0"
      by (simp add: word_greater_zero_iff unat_eq_0)
    then show ?thesis
      by (simp add: Let_def binary_Write_ints_def split: sum.splits)
  next
    case False
    with Cons.prems have "\<exists>p \<in> set ps. Positions p \<noteq> [] \<and> length (Positions p) < 2 ^ 32"
      by auto
    from Cons.IH [OF this] show ?thesis
      by (simp add: Let_def split: sum.splits)
  qed
qed


lemma writePostingList_positions:
  assumes "\<exists>p \<in> set (Postings pl). Positions p \<noteq> [] \<and> length (Positions p) < 2 ^ 32"
  shows "\<exists>e. writePostingList f pl = Inl e"
  using writePostingList_loop_positions [OF assms]
  by (simp add: writePostingList_def split: sum.splits)

lemma Write_loop_positions:
  assumes "t \<in> set order" and "dict t = Some pl"
    and "\<exists>p \<in> set (Postings pl). Positions p \<noteq> [] \<and> length (Positions p) < 2 ^ 32"
  shows "\<exists>e. Write_loop f dict order = Inl e"
  using assms(1)
proof (induction order arbitrary: f)
  case Nil
  then show ?case by simp
next
  case (Cons u order)
  show ?case
  proof (cases "u = t")
    case True
    have no: "writePostingList g pl \<noteq> Inr g'" for g g'
      using writePostingList_positions [OF assms(3), of g] by auto
    from True show ?thesis
      by (simp add: assms(2) Let_def no split: sum.splits)
  next
    case False
    with Cons.prems have "t \<in> set order"
      by simp
    from Cons.IH [OF this] show ?thesis
      by (simp add: Let_def split: sum.splits option.splits)
  qed
qed

lemma IndexSegment_Write_positions:
  assumes "t \<in> set order" and "termDict index t = Some pl"
    and "\<exists>p \<in> set (Postings pl). Positions p \<noteq> [] \<and> length (Positions p) < 2 ^ 32"
  shows "\<exists>e. IndexSegment_Write index order = Inl e"
  using Write_loop_positions [of t order "termDict index" pl, OF assms]
  by (simp add: IndexSegment_Write_def Let_def split: sum.splits)

lemma TermCount_index_segment_bytes:
  "TermCount (IndexSegmentHeader_of_bytes (index_segment_bytes index order)) = of_nat (length order)"
  by (simp add: index_segment_bytes_def IndexSegmentHeader_of_bytes_def IndexSegment_header_of_def
      IndexSegmentHeader_bytes_def IndexSegmentMagic_def Uint32_PutUint32)

text \<open>
  What works: for an index whose postings carry no positions and whose lengths and
  counts fit the fields of the format, \<open>Write\<close> succeeds and the file is the header,
  whose term count is the size of the term dictionary, followed by each term and its
  posting list, and \<open>Read\<close> of that file returns a new index with the same term
  dictionary. \<open>Read\<close> fails with \<open>invalid segment magic\<close> when the file holds a
  header whose magic is not \<open>NINV\<close>, and it fails as well when the file is shorter
  than a header.
\<close>

lemma IndexSegment_Write_Read_without_positions:
  "(storable index order \<longrightarrow>
      IndexSegment_Write index order = Inr (at_end (index_segment_bytes index order)) \<and>
      unat (TermCount (IndexSegmentHeader_of_bytes (index_segment_bytes index order)))
        = card (dom (termDict index)) \<and>
      IndexSegment_Read (index_segment_bytes index order)
        = Inr (NewInvertedIndex\<lparr>termDict := termDict index\<rparr>)) \<and>
   (IndexSegmentHeader_size \<le> length bytes \<and> take 4 bytes \<noteq> bytes_of_string IndexSegmentMagic \<longrightarrow>
      IndexSegment_Read bytes = Inl InvalidMagic) \<and>
   (length bytes < IndexSegmentHeader_size \<longrightarrow>
      IndexSegment_Read bytes
        = Inl (Wrapped ''failed to read header'' (if bytes = [] then EOF else ErrUnexpectedEOF)))"
proof -
  have "unat (TermCount (IndexSegmentHeader_of_bytes (index_segment_bytes index order)))
        = card (dom (termDict index))" if "storable index order"
  proof -
    from that have n: "length order < 2 ^ 32" and d: "distinct order"
      and k: "set order = dom (termDict index)"
      by (simp_all add: storable_def range_order_def)
    from d have "card (set order) = length order"
      by (rule distinct_card)
    with k show ?thesis
      by (simp add: TermCount_index_segment_bytes unat_length_32 [OF n])
  qed
  then show ?thesis
    using IndexSegment_Write_storable [of index order] IndexSegment_Read_storable [of index order]
      IndexSegment_Read_magic [of bytes] IndexSegment_Read_short [of bytes]
    by blast
qed

lemma bare_index_bytes:
  "index_segment_bytes bare_index [''title:novel'']
     = IndexSegment_header_of 1 @ PutUint16 11 @ bytes_of_string ''title:novel''
       @ PutUint32 1 @ PutUint16 1 @ bytes_of_string ''1'' @ PutUint32 1 @ PutUint32 0"
  by (simp add: index_segment_bytes_def bare_index_def NewInvertedIndex_def term_bytes_def
      posting_list_bytes_def posting_bytes_def)

lemma bare_index_storable: "storable bare_index [''title:novel'']"
  unfolding storable_def bare_index_bytes
  by (simp add: bare_index_def NewInvertedIndex_def range_order_def storable_list_def
      storable_posting_def max_offset_def)

lemma bare_index_Write_Read:
  "storable bare_index [''title:novel''] \<and>
   IndexSegment_Write bare_index [''title:novel'']
     = Inr (at_end (IndexSegment_header_of 1 @ PutUint16 11 @ bytes_of_string ''title:novel''
              @ PutUint32 1 @ PutUint16 1 @ bytes_of_string ''1'' @ PutUint32 1 @ PutUint32 0)) \<and>
   IndexSegment_Read (IndexSegment_header_of 1 @ PutUint16 11 @ bytes_of_string ''title:novel''
              @ PutUint32 1 @ PutUint16 1 @ bytes_of_string ''1'' @ PutUint32 1 @ PutUint32 0)
     = Inr bare_index \<and>
   IndexSegmentHeader_size \<le> length (bytes_of_string ''NSEG'' @ replicate 14 0) \<and>
   IndexSegment_Read (bytes_of_string ''NSEG'' @ replicate 14 0) = Inl InvalidMagic \<and>
   IndexSegment_Read [] = Inl (Wrapped ''failed to read header'' EOF)"
proof -
  have b: "NewInvertedIndex\<lparr>termDict := termDict bare_index\<rparr> = bare_index"
    by (simp add: bare_index_def)
  have m: "IndexSegmentHeader_size \<le> length (bytes_of_string ''NSEG'' @ replicate 14 0)"
    "take 4 (bytes_of_string ''NSEG'' @ replicate 14 0) \<noteq> bytes_of_string IndexSegmentMagic"
    "length ([] :: byte list) < IndexSegmentHeader_size"
    by (simp_all add: IndexSegmentHeader_size_def IndexSegmentMagic_def bytes_of_string_def)
  show ?thesis
    using IndexSegment_Write_Read_without_positions [of bare_index "[''title:novel'']" "bytes_of_string ''NSEG'' @ replicate 14 0"]
      IndexSegment_Write_Read_without_positions [of bare_index "[''title:novel'']" "[]"]
      bare_index_storable m
    by (simp add: bare_index_bytes b)
qed

text \<open>
  On the index of two documents built by \<open>IndexDocument\<close> the error is that of
  \<open>encoding/binary\<close>.
\<close>

lemma sample_index_Write:
  "IndexSegment_Write sample_index [''title:classic'', ''title:novel'', ''description:novel'']
     = Inl NotFixedSize"
  by (simp add: IndexSegment_Write_def sample_index_eq Let_def file_Write_def max_offset_def
      IndexSegmentHeader_bytes_def IndexSegmentMagic_def writePostingList_def binary_Write_ints_def)

text \<open>
  \<open>Read\<close> returns the error of every read: the file that consists of a header with
  the magic \<open>NINV\<close> and a term count of 1, and of nothing else, is refused with
  \<open>EOF\<close>.
\<close>

lemma IndexSegment_Read_cut_short:
  "take 4 (IndexSegment_header_of 1) = bytes_of_string IndexSegmentMagic \<and>
   IndexSegment_Read (IndexSegment_header_of 1) = Inl EOF"
proof -
  have h: "file_ReadFull \<lparr>content = IndexSegment_header_of 1, pos = 0\<rparr> 18
      = Inr (IndexSegment_header_of 1, reading_at (IndexSegment_header_of 1) [])"
    using file_ReadFull_reading_at [of "IndexSegment_header_of 1" 18 "[]" "[]"]
    by (simp add: reading_at_def)
  have e: "file_ReadFull (reading_at (IndexSegment_header_of 1) []) 2 = Inl EOF"
    by (simp add: file_ReadFull_def reading_at_def)
  have magic: "string_of_bytes (bytes_of_string IndexSegmentMagic) = IndexSegmentMagic"
    by (rule string_of_bytes_of_string)
  have "take 4 (IndexSegment_header_of 1) = bytes_of_string IndexSegmentMagic"
    by (simp add: IndexSegment_header_of_def IndexSegmentHeader_bytes_def IndexSegmentMagic_def)
  moreover have "IndexSegment_Read (IndexSegment_header_of 1) = Inl EOF"
    by (simp add: IndexSegment_Read_def IndexSegmentHeader_size_def h IndexSegment_header_decode
        magic e)
  ultimately show ?thesis
    by simp
qed

lemma AddPosting_loop_Some_positions:
  "AddPosting_loop ps d x = Some qs \<Longrightarrow> list_all (\<lambda>p. Positions p \<noteq> []) ps \<Longrightarrow>
   qs \<noteq> [] \<and> list_all (\<lambda>p. Positions p \<noteq> []) qs"
  by (induction ps arbitrary: qs) (auto split: if_splits)

lemma AddPosting_has_positions:
  assumes "list_all (\<lambda>p. Positions p \<noteq> []) (Postings pl)"
  shows "has_positions (AddPosting pl d x)"
proof (cases "AddPosting_loop (Postings pl) d x")
  case None
  with assms show ?thesis
    by (simp add: AddPosting_def has_positions_def)
next
  case (Some qs)
  from AddPosting_loop_Some_positions [OF Some assms] Some show ?thesis
    by (simp add: AddPosting_def has_positions_def)
qed

lemma IndexDocument_loop_positions:
  "all_have_positions idx \<Longrightarrow>
   all_have_positions (IndexDocument_loop idx docID fieldName tokens positions)"
proof (induction idx docID fieldName tokens positions rule: IndexDocument_loop.induct)
  case (2 idx docID fieldName token tokens p positions)
  let ?k = "fieldName @ '':'' @ token"
  let ?l = "case termDict idx ?k of Some pl \<Rightarrow> pl | None \<Rightarrow> NewPostingList"
  let ?idx = "idx\<lparr>termDict := (termDict idx)(?k \<mapsto> AddPosting ?l docID p),
                    totalTerms := totalTerms idx + 1\<rparr>"
  have "list_all (\<lambda>p. Positions p \<noteq> []) (Postings ?l)"
    using "2.prems"
    by (cases "termDict idx ?k") (auto simp: all_have_positions_def has_positions_def NewPostingList_def)
  then have step: "has_positions (AddPosting ?l docID p)"
    by (rule AddPosting_has_positions)
  have "all_have_positions ?idx"
    using "2.prems" step by (auto simp: all_have_positions_def)
  then have "all_have_positions (IndexDocument_loop ?idx docID fieldName tokens positions)"
    using "2.IH" by simp
  then show ?case
    by (simp add: Let_def)
qed simp_all

lemma IndexDocument_positions:
  assumes "all_have_positions idx"
  shows "all_have_positions (IndexDocument U idx docID fieldName text)"
proof -
  obtain tokens positions where a: "AnalyzeWithPositions U (analyzer idx) text = (tokens, positions)"
    by (cases "AnalyzeWithPositions U (analyzer idx) text")
  have "all_have_positions (IndexDocument_loop idx docID fieldName tokens positions)"
    using assms by (rule IndexDocument_loop_positions)
  then show ?thesis
    by (simp add: IndexDocument_def a Let_def all_have_positions_def)
qed

lemma IndexDocuments_positions:
  "all_have_positions idx \<Longrightarrow> all_have_positions (IndexDocuments U idx calls)"
  unfolding IndexDocuments_def
  by (induction calls arbitrary: idx) (auto simp: IndexDocument_positions)

text \<open>
  Claim C3. \<open>Write\<close> returns an error for every index and enumeration order in which
  some posting has positions (fewer than \<open>2^32\<close> of them): it hands the \<open>[]int\<close> of the
  positions to \<open>binary.Write\<close>, which refuses it. Every index that \<open>IndexDocument\<close>
  calls build from a new index is such an index, unless its dictionary is empty: on
  none of them does \<open>Write\<close> succeed.
\<close>

theorem IndexSegment_Write_rejects_positions:
  "((\<exists>t \<in> set order. \<exists>pl. termDict index t = Some pl \<and>
       (\<exists>p \<in> set (Postings pl). Positions p \<noteq> [] \<and> length (Positions p) < 2 ^ 32)) \<longrightarrow>
      (\<exists>e. IndexSegment_Write index order = Inl e)) \<and>
   (range_order (dom (termDict (IndexDocuments U (NewInvertedIndexWithAnalyzer a) docs))) keys \<and>
    keys \<noteq> [] \<and> short_positions (IndexDocuments U (NewInvertedIndexWithAnalyzer a) docs) \<longrightarrow>
      (\<exists>e. IndexSegment_Write (IndexDocuments U (NewInvertedIndexWithAnalyzer a) docs) keys = Inl e))"
proof -
  define built where "built = IndexDocuments U (NewInvertedIndexWithAnalyzer a) docs"
  have "\<exists>e. IndexSegment_Write built keys = Inl e"
    if r: "range_order (dom (termDict built)) keys" and n: "keys \<noteq> []" and s: "short_positions built"
  proof -
    have "all_have_positions (NewInvertedIndexWithAnalyzer a)"
      by (simp add: all_have_positions_def NewInvertedIndexWithAnalyzer_def)
    then have ok: "all_have_positions built"
      unfolding built_def by (rule IndexDocuments_positions)
    from n obtain t where t: "t \<in> set keys"
      by (cases keys) auto
    with r obtain pl where pl: "termDict built t = Some pl"
      by (auto simp: range_order_def)
    from ok pl have hp: "has_positions pl"
      by (simp add: all_have_positions_def)
    then obtain p where p: "p \<in> set (Postings pl)" and pp: "Positions p \<noteq> []"
      by (cases "Postings pl") (auto simp: has_positions_def)
    from s pl p have "length (Positions p) < 2 ^ 32"
      by (auto simp: short_positions_def list_all_iff)
    with p pp have "\<exists>p \<in> set (Postings pl). Positions p \<noteq> [] \<and> length (Positions p) < 2 ^ 32"
      by blast
    from IndexSegment_Write_positions [OF t pl this] show ?thesis .
  qed
  then show ?thesis
    unfolding built_def using IndexSegment_Write_positions [of _ order index] by blast
qed

lemma sample_index_order:
  "range_order (dom (termDict sample_index)) [''title:classic'', ''title:novel'', ''description:novel'']"
  by (auto simp: sample_index_eq range_order_def)

lemma sample_index_short: "short_positions sample_index"
  by (auto simp: sample_index_eq short_positions_def split: if_splits)

text \<open>
  \<open>Read\<close> hands a \<open>[]int\<close> to \<open>binary.Read\<close> in the same way: a file that holds a
  posting with a position, laid out as the format describes, is refused.
\<close>

lemma novel_file_Read: "IndexSegment_Read novel_file = Inl NotFixedSize"
proof -
  have h: "file_ReadFull \<lparr>content = novel_file, pos = 0\<rparr> 18
      = Inr (IndexSegment_header_of 1,
             reading_at (IndexSegment_header_of 1)
               (PutUint16 11 @ bytes_of_string ''title:novel''
                @ PutUint32 1 @ PutUint16 1 @ bytes_of_string ''1'' @ PutUint32 1 @ PutUint32 1 @ PutUint64 8))"
    using file_ReadFull_reading_at [of "IndexSegment_header_of 1" 18 "[]"]
    by (simp add: reading_at_def novel_file_def)
  have magic: "string_of_bytes (bytes_of_string IndexSegmentMagic) = IndexSegmentMagic"
    by (rule string_of_bytes_of_string)
  have t: "file_ReadFull (reading_at c (bytes_of_string ''title:novel'' @ rest)) 11
      = Inr (bytes_of_string ''title:novel'', reading_at (c @ bytes_of_string ''title:novel'') rest)" for c rest
    by (rule file_ReadFull_reading_at) simp
  have d: "file_ReadFull (reading_at c (bytes_of_string ''1'' @ rest)) (Suc 0)
      = Inr (bytes_of_string ''1'', reading_at (c @ bytes_of_string ''1'') rest)" for c rest
    by (rule file_ReadFull_reading_at) simp
  show ?thesis
    by (simp add: IndexSegment_Read_def IndexSegmentHeader_size_def h IndexSegment_header_decode magic
        file_ReadFull_PutUint16 file_ReadFull_PutUint32 Uint16_PutUint16_Nil Uint32_PutUint32_Nil
        t d readPostingList_def binary_Read_ints_def)
qed

theorem IndexSegment_Write_rejects_positions_witness:
  "sample_index = IndexDocuments ascii_unicode (NewInvertedIndexWithAnalyzer NewAnalyzer)
       [(''1'', ''title'', ''classic novel''), (''2'', ''description'', ''novel'')] \<and>
   termDict sample_index ''title:novel''
     = Some \<lparr>Postings = [\<lparr>DocID = ''1'', TermFreq = 1, Positions = [8]\<rparr>], DocFreq = 1\<rparr> \<and>
   range_order (dom (termDict sample_index)) [''title:classic'', ''title:novel'', ''description:novel''] \<and>
   short_positions sample_index \<and>
   (\<exists>e. IndexSegment_Write sample_index [''title:classic'', ''title:novel'', ''description:novel''] = Inl e) \<and>
   IndexSegment_Write sample_index [''title:classic'', ''title:novel'', ''description:novel'']
     = Inl NotFixedSize"
proof -
  have b: "sample_index = IndexDocuments ascii_unicode (NewInvertedIndexWithAnalyzer NewAnalyzer)
       [(''1'', ''title'', ''classic novel''), (''2'', ''description'', ''novel'')]"
    by (simp add: sample_index_def NewInvertedIndex_def NewInvertedIndexWithAnalyzer_def)
  have n: "[''title:classic'', ''title:novel'', ''description:novel''] \<noteq> []"
    by simp
  have d: "termDict sample_index ''title:novel''
     = Some \<lparr>Postings = [\<lparr>DocID = ''1'', TermFreq = 1, Positions = [8]\<rparr>], DocFreq = 1\<rparr>"
    by (simp add: sample_index_eq)
  have "\<exists>e. IndexSegment_Write sample_index [''title:classic'', ''title:novel'', ''description:novel''] = Inl e"
    using IndexSegment_Write_rejects_positions
      [of "[]" NewInvertedIndex ascii_unicode NewAnalyzer
          "[(''1'', ''title'', ''classic novel''), (''2'', ''description'', ''novel'')]"
          "[''title:classic'', ''title:novel'', ''description:novel'']"]
      sample_index_order sample_index_short n
    unfolding b [symmetric] by blast
  with b d sample_index_order sample_index_short sample_index_Write show ?thesis
    by blast
qed

section \<open>Sequence numbers of the write-ahead log\<close>

lemma length_WAL_header_of [simp]: "length (WAL_header_of seq) = 22"
  by (simp add: WAL_header_of_def WALHeader_bytes_def bytes_of_string_def WALMagic_def)

lemma header_sequence_WAL_header_of: "header_sequence (WAL_header_of seq @ rest) = seq"
  by (simp add: header_sequence_def WAL_header_of_def WALHeader_bytes_def bytes_of_string_def WALMagic_def
      Uint64_PutUint64)

lemma serializeEntry_length:
  "serializeEntry C e = Inr bs \<Longrightarrow> 25 \<le> length bs"
  by (auto simp: serializeEntry_def Let_def split: sum.splits)

lemma serializeEntry_sequence:
  "serializeEntry C e = Inr bs \<Longrightarrow> entry_sequence bs = entry_Sequence e"
  by (auto simp: serializeEntry_def Let_def entry_sequence_def Uint64_PutUint64 split: sum.splits)

lemma WAL_WriteEntry_step:
  assumes st: "wal_state w n frames"
    and wr: "WAL_WriteEntry C w now t i d doc = Inr w'"
  shows "wal_state w' (Suc n) (frames @ entry_frame C (new_entry (of_nat (Suc n)) now t i d doc))
         \<and> (\<exists>bs. serializeEntry C (new_entry (of_nat (Suc n)) now t i d doc) = Inr bs)"
proof -
  define s1 where "s1 = sequence w + 1"
  define e where "e = new_entry s1 now t i d doc"
  define w1 where "w1 = w\<lparr>sequence := s1\<rparr>"
  from st have seq: "sequence w = of_nat n"
    and cont: "content (wal_file w) = WAL_header_of (of_nat n) @ frames"
    and atend: "pos (wal_file w) = length (content (wal_file w))"
    and len: "29 * n \<le> length frames"
    by (simp_all add: wal_state_def)
  have s1: "s1 = of_nat (Suc n)"
    by (simp add: s1_def seq)
  have unfold: "WAL_WriteEntry C w now t i d doc =
     (case serializeEntry C e of
        Inl err \<Rightarrow> Inl (Wrapped ''failed to serialize WAL entry'' err)
      | Inr entryBytes \<Rightarrow>
          (case file_Write (wal_file w) (PutUint32 (of_nat (length entryBytes))) of
             Inl err \<Rightarrow> Inl (Wrapped ''failed to write entry length'' err)
           | Inr f \<Rightarrow>
               (case file_Write f entryBytes of
                  Inl err \<Rightarrow> Inl (Wrapped ''failed to write entry'' err)
                | Inr f' \<Rightarrow> WAL_updateHeader (w1\<lparr>wal_file := f'\<rparr>))))"
    by (simp add: WAL_WriteEntry_def Let_def e_def w1_def s1_def cong: sum.case_cong)
  from wr obtain bs where ser: "serializeEntry C e = Inr bs"
    unfolding unfold by (auto split: sum.splits)
  from wr ser obtain f1 where wr1: "file_Write (wal_file w) (PutUint32 (of_nat (length bs))) = Inr f1"
    unfolding unfold by (auto split: sum.splits)
  from wr ser wr1 obtain f2 where wr2: "file_Write f1 bs = Inr f2"
    unfolding unfold by (auto split: sum.splits)
  from wr ser wr1 wr2 have up: "WAL_updateHeader (w1\<lparr>wal_file := f2\<rparr>) = Inr w'"
    unfolding unfold by simp
  from file_Write_at_end [OF atend wr1]
  have c1: "content f1 = content (wal_file w) @ PutUint32 (of_nat (length bs))"
    and p1: "pos f1 = length (content f1)"
    by simp_all
  from file_Write_at_end [OF p1 wr2]
  have c2: "content f2 = content f1 @ bs" and p2: "pos f2 = length (content f2)"
    and m2: "length (content f2) \<le> max_offset"
    by auto
  have frame: "entry_frame C e = PutUint32 (of_nat (length bs)) @ bs"
    by (simp add: entry_frame_def ser)
  have c2': "content f2 = WAL_header_of (of_nat n) @ (frames @ entry_frame C e)"
    by (simp add: c2 c1 cont frame)
  have hw: "file_Write (f2\<lparr>pos := 0\<rparr>) (WAL_header_of s1)
      = Inr (f2\<lparr>content := WAL_header_of s1 @ (frames @ entry_frame C e), pos := 22\<rparr>)"
    using file_Write_over_prefix [of "f2\<lparr>pos := 0\<rparr>" "WAL_header_of (of_nat n)" "frames @ entry_frame C e"
        "WAL_header_of s1"] c2'
    by (simp add: max_offset_def)
  from up have w': "w' = w1\<lparr>wal_file := f2\<lparr>content := WAL_header_of s1 @ (frames @ entry_frame C e)\<rparr>\<rparr>"
    using hw
    by (simp add: WAL_updateHeader_def WAL_writeHeader_def file_Seek_def Let_def w1_def
        WAL_header_of_def [symmetric])
  have "25 \<le> length bs"
    using ser by (rule serializeEntry_length)
  then have len': "29 * Suc n \<le> length (frames @ entry_frame C e)"
    using len by (simp add: frame)
  have "wal_state w' (Suc n) (frames @ entry_frame C e)"
    unfolding wal_state_def using len' m2 p2 s1
    by (simp add: w' c2' w1_def)
  with ser show ?thesis
    unfolding e_def s1 by blast
qed


lemma entries_from_Cons:
  "entries_from (of_nat n) ((now, t, i, d, doc) # calls) =
     new_entry (of_nat (Suc n)) now t i d doc # entries_from (of_nat (Suc n)) calls"
  by (simp add: add.commute)

lemma WAL_WriteEntries_state:
  assumes "wal_state w n frames" and "WAL_WriteEntries C w calls = Inr w'"
  shows "wal_state w' (n + length calls)
           (frames @ concat (map (entry_frame C) (entries_from (of_nat n) calls))) \<and>
         list_all (\<lambda>e. \<exists>bs. serializeEntry C e = Inr bs) (entries_from (of_nat n) calls)"
  using assms
proof (induction calls arbitrary: w n frames)
  case Nil
  then show ?case by simp
next
  case (Cons c calls)
  obtain now t i d doc where c: "c = (now, t, i, d, doc)"
    by (cases c)
  from Cons.prems(2) obtain w1 where
    one: "WAL_WriteEntry C w now t i d doc = Inr w1" and rest: "WAL_WriteEntries C w1 calls = Inr w'"
    by (auto simp: c split: sum.splits)
  let ?e = "new_entry (of_nat (Suc n)) now t i d doc"
  from WAL_WriteEntry_step [OF Cons.prems(1) one]
  have st1: "wal_state w1 (Suc n) (frames @ entry_frame C ?e)"
    and ser: "\<exists>bs. serializeEntry C ?e = Inr bs"
    by blast+
  from Cons.IH [OF st1 rest] ser show ?case
    unfolding c entries_from_Cons by simp
qed

lemma wal_state_bound:
  assumes "wal_state w n frames"
  shows "n < 2 ^ 64"
proof -
  from assms have "29 * n \<le> length frames" and "length (content (wal_file w)) \<le> max_offset"
    and "content (wal_file w) = WAL_header_of (of_nat n) @ frames"
    unfolding wal_state_def by blast+
  then have "29 * n \<le> max_offset"
    by simp
  then show ?thesis
    by (simp add: max_offset_def)
qed

lemma entries_from_sequences:
  "map entry_Sequence (entries_from s calls) = map (\<lambda>k. s + of_nat (Suc k)) [0..<length calls]"
proof (induction calls arbitrary: s)
  case Nil
  show ?case by simp
next
  case (Cons c calls)
  obtain now t i d doc where c: "c = (now, t, i, d, doc)"
    by (cases c)
  have "[0..<Suc (length calls)] = 0 # map Suc [0..<length calls]"
    by (simp add: upt_conv_Cons map_Suc_upt del: upt_Suc)
  then show ?case
    using Cons.IH [of "s + 1"] by (simp add: c new_entry_def add.assoc add.commute del: upt_Suc)
qed

lemma entries_from_unat:
  assumes "length calls < 2 ^ 64"
  shows "map (\<lambda>e. unat (entry_Sequence e)) (entries_from 0 calls) = [1..<Suc (length calls)]"
proof -
  have "map (\<lambda>e. unat (entry_Sequence e)) (entries_from 0 calls)
      = map unat (map entry_Sequence (entries_from 0 calls))"
    by simp
  also have "\<dots> = map (\<lambda>k. unat (of_nat (Suc k) :: 64 word)) [0..<length calls]"
    by (simp add: entries_from_sequences del: upt_Suc of_nat_Suc)
  also have "\<dots> = map Suc [0..<length calls]"
    using assms by (intro map_cong refl) (simp add: unat_of_nat del: of_nat_Suc)
  finally show ?thesis
    by (simp add: map_Suc_upt del: upt_Suc)
qed

lemma WAL_Open_empty_state:
  assumes "WAL_Open_empty path = Inr w0"
  shows "wal_state w0 0 []"
  using assms
  by (auto simp: WAL_Open_empty_def WAL_writeHeader_def file_Write_def wal_state_def max_offset_def
      WAL_header_of_def [symmetric] Let_def split: if_splits)

lemma WAL_WriteEntries_append:
  "WAL_WriteEntries C w (xs @ ys) = Inr w' \<Longrightarrow>
   \<exists>wm. WAL_WriteEntries C w xs = Inr wm \<and> WAL_WriteEntries C wm ys = Inr w'"
  by (induction xs arbitrary: w) (auto split: sum.splits)

lemma entry_payload_sequence:
  assumes "list_all (\<lambda>e. \<exists>bs. serializeEntry C e = Inr bs) es"
  shows "map (\<lambda>e. entry_sequence (entry_payload C e)) es = map entry_Sequence es"
  using assms
  by (induction es) (auto simp: entry_payload_def serializeEntry_sequence)


lemma entry_frame_payload:
  assumes "list_all (\<lambda>e. \<exists>bs. serializeEntry C e = Inr bs) es"
  shows "map (serializeEntry C) es = map Inr (map (entry_payload C) es) \<and>
         concat (map (entry_frame C) es)
           = concat (map (\<lambda>bs. PutUint32 (of_nat (length bs)) @ bs) (map (entry_payload C) es))"
  using assms
  by (induction es) (auto simp: entry_payload_def entry_frame_def)

lemma WAL_Open_empty_succeeds: "\<exists>w0. WAL_Open_empty path = Inr w0"
  by (simp add: WAL_Open_empty_def WAL_writeHeader_def file_Write_def max_offset_def Let_def
      WAL_header_of_def [symmetric])

lemma WAL_WriteEntry_succeeds:
  assumes "wal_state w n frames" and "serializeEntry C (new_entry (of_nat (Suc n)) now t i d doc) = Inr bs"
    and "length (content (wal_file w)) + 4 + length bs \<le> max_offset"
  shows "\<exists>w'. WAL_WriteEntry C w now t i d doc = Inr w'"
proof -
  from assms(1) have "sequence w + 1 = of_nat (Suc n)"
    by (simp add: wal_state_def)
  with assms show ?thesis
    by (auto simp: WAL_WriteEntry_def WAL_updateHeader_def WAL_writeHeader_def file_Write_def file_Seek_def
      wal_state_def Let_def max_offset_def WAL_header_of_def [symmetric]
      split: sum.splits simp del: of_nat_Suc)
qed

lemma WAL_WriteEntries_succeeds:
  assumes "wal_state w n frames"
    and "list_all (\<lambda>e. \<exists>bs. serializeEntry C e = Inr bs) (entries_from (of_nat n) calls)"
    and "length (content (wal_file w)) + length (concat (map (entry_frame C) (entries_from (of_nat n) calls)))
           \<le> max_offset"
  shows "\<exists>w'. WAL_WriteEntries C w calls = Inr w'"
  using assms
proof (induction calls arbitrary: w n frames)
  case Nil
  show ?case by simp
next
  case (Cons c calls)
  obtain now t i d doc where c: "c = (now, t, i, d, doc)"
    by (cases c)
  let ?e = "new_entry (of_nat (Suc n)) now t i d doc"
  from Cons.prems(2) obtain bs where ser: "serializeEntry C ?e = Inr bs"
    and rest: "list_all (\<lambda>e. \<exists>bs. serializeEntry C e = Inr bs) (entries_from (of_nat (Suc n)) calls)"
    unfolding c entries_from_Cons by auto
  have frame: "entry_frame C ?e = PutUint32 (of_nat (length bs)) @ bs"
    by (simp add: entry_frame_def ser del: of_nat_Suc)
  from Cons.prems(3) have fit: "length (content (wal_file w)) + 4 + length bs
      + length (concat (map (entry_frame C) (entries_from (of_nat (Suc n)) calls))) \<le> max_offset"
    unfolding c entries_from_Cons by (simp add: frame del: of_nat_Suc)
  then have "length (content (wal_file w)) + 4 + length bs \<le> max_offset"
    by simp
  from WAL_WriteEntry_succeeds [OF Cons.prems(1) ser this]
  obtain w1 where one: "WAL_WriteEntry C w now t i d doc = Inr w1"
    by blast
  from WAL_WriteEntry_step [OF Cons.prems(1) one]
  have st1: "wal_state w1 (Suc n) (frames @ entry_frame C ?e)"
    by blast
  from st1 Cons.prems(1) have "length (content (wal_file w1)) = length (content (wal_file w)) + 4 + length bs"
    by (simp add: wal_state_def frame del: of_nat_Suc)
  with fit have "length (content (wal_file w1))
      + length (concat (map (entry_frame C) (entries_from (of_nat (Suc n)) calls))) \<le> max_offset"
    by simp
  from Cons.IH [OF st1 rest this] one show ?case
    by (simp add: c)
qed

text \<open>
  Claim C2. For every sequence of successful \<open>WriteEntry\<close> calls on a WAL freshly
  opened on an empty file: every entry was serialized, the file is the header followed
  by the entries, each preceded by its length; the sequence numbers read from the
  entries in the file are 1, 2, ..., the number of calls (strictly increasing and
  contiguous, starting at 1); and after each call has returned, the counter of the WAL
  and the sequence stored in the header of the file are the number of entries written so
  far, which is the largest sequence number written.
\<close>

theorem WAL_sequences_contiguous:
  assumes "WAL_Open_empty path = Inr w0" and "WAL_WriteEntries C w0 calls = Inr w"
  shows "(\<exists>payloads.
           map (serializeEntry C) (entries_from 0 calls) = map Inr payloads \<and>
           content (wal_file w) =
             WAL_header_of (sequence w) @ concat (map (\<lambda>bs. PutUint32 (of_nat (length bs)) @ bs) payloads) \<and>
           map (\<lambda>bs. unat (entry_sequence bs)) payloads = [1..<Suc (length calls)]) \<and>
         (\<forall>k \<le> length calls. \<exists>wk.
           WAL_WriteEntries C w0 (take k calls) = Inr wk \<and>
           unat (sequence wk) = k \<and>
           unat (header_sequence (content (wal_file wk))) = k)"
proof -
  have st0: "wal_state w0 0 []"
    using assms(1) by (rule WAL_Open_empty_state)
  have run: "wal_state w' (length cs) (concat (map (entry_frame C) (entries_from 0 cs))) \<and>
             list_all (\<lambda>e. \<exists>bs. serializeEntry C e = Inr bs) (entries_from 0 cs)"
    if "WAL_WriteEntries C w0 cs = Inr w'" for cs w'
    using WAL_WriteEntries_state [OF st0 that] by simp
  have hdr: "unat (sequence w') = length cs \<and> unat (header_sequence (content (wal_file w'))) = length cs"
    if "wal_state w' (length cs) frames" for cs :: "write_call list" and w' frames
  proof -
    have "length cs < 2 ^ 64"
      using that by (rule wal_state_bound)
    then have "unat (of_nat (length cs) :: 64 word) = length cs"
      by (simp add: unat_of_nat)
    then show ?thesis
      using that by (simp add: wal_state_def header_sequence_WAL_header_of)
  qed
  let ?es = "entries_from 0 calls"
  let ?payloads = "map (entry_payload C) ?es"
  from run [OF assms(2)] have st: "wal_state w (length calls) (concat (map (entry_frame C) ?es))"
    and ok: "list_all (\<lambda>e. \<exists>bs. serializeEntry C e = Inr bs) ?es"
    by blast+
  have "length calls < 2 ^ 64"
    using st by (rule wal_state_bound)
  then have seqs: "map (\<lambda>e. unat (entry_Sequence e)) ?es = [1..<Suc (length calls)]"
    by (rule entries_from_unat)
  have "map (\<lambda>bs. unat (entry_sequence bs)) ?payloads
      = map unat (map (\<lambda>e. entry_sequence (entry_payload C e)) ?es)"
    by (simp add: comp_def)
  also have "\<dots> = map unat (map entry_Sequence ?es)"
    using ok by (simp only: entry_payload_sequence)
  finally have p3: "map (\<lambda>bs. unat (entry_sequence bs)) ?payloads = [1..<Suc (length calls)]"
    using seqs by (simp add: comp_def)
  have p2: "content (wal_file w) =
      WAL_header_of (sequence w) @ concat (map (\<lambda>bs. PutUint32 (of_nat (length bs)) @ bs) ?payloads)"
    using st entry_frame_payload [OF ok] by (simp add: wal_state_def)
  have p1: "map (serializeEntry C) ?es = map Inr ?payloads"
    using entry_frame_payload [OF ok] by blast
  from p1 p2 p3 have part1: "\<exists>payloads.
           map (serializeEntry C) (entries_from 0 calls) = map Inr payloads \<and>
           content (wal_file w) =
             WAL_header_of (sequence w) @ concat (map (\<lambda>bs. PutUint32 (of_nat (length bs)) @ bs) payloads) \<and>
           map (\<lambda>bs. unat (entry_sequence bs)) payloads = [1..<Suc (length calls)]"
    by blast
  have part2: "\<forall>k \<le> length calls. \<exists>wk.
           WAL_WriteEntries C w0 (take k calls) = Inr wk \<and>
           unat (sequence wk) = k \<and>
           unat (header_sequence (content (wal_file wk))) = k"
  proof (intro allI impI)
    fix k assume k: "k \<le> length calls"
    have "WAL_WriteEntries C w0 (take k calls @ drop k calls) = Inr w"
      using assms(2) by simp
    then obtain wk where wk: "WAL_WriteEntries C w0 (take k calls) = Inr wk"
      using WAL_WriteEntries_append by blast
    from run [OF wk] have "wal_state wk (length (take k calls)) (concat (map (entry_frame C) (entries_from 0 (take k calls))))"
      by blast
    from hdr [OF this] k wk show "\<exists>wk.
           WAL_WriteEntries C w0 (take k calls) = Inr wk \<and>
           unat (sequence wk) = k \<and>
           unat (header_sequence (content (wal_file wk))) = k"
      by (simp add: min_absorb2)
  qed
  from part1 part2 show ?thesis
    by blast
qed

lemma sample_calls_serialize:
  "list_all (\<lambda>e. \<exists>bs. serializeEntry null_codec e = Inr bs \<and> length bs = 30) (entries_from 0 sample_calls)"
  by (simp add: sample_calls_def serializeEntry_def new_entry_def bytes_of_string_def)

theorem WAL_sequences_contiguous_witness:
  "\<exists>w0 w. WAL_Open_empty ''wal.dat'' = Inr w0 \<and>
          WAL_WriteEntries null_codec w0 sample_calls = Inr w \<and>
          unat (sequence w) = 2 \<and>
          unat (header_sequence (content (wal_file w))) = 2 \<and>
          (\<exists>payloads. map (serializeEntry null_codec) (entries_from 0 sample_calls) = map Inr payloads \<and>
             content (wal_file w) =
               WAL_header_of (sequence w) @ concat (map (\<lambda>bs. PutUint32 (of_nat (length bs)) @ bs) payloads) \<and>
             map (\<lambda>bs. unat (entry_sequence bs)) payloads = [1, 2])"
proof -
  obtain w0 where w0: "WAL_Open_empty ''wal.dat'' = Inr w0"
    using WAL_Open_empty_succeeds by blast
  have st0: "wal_state w0 0 []"
    using w0 by (rule WAL_Open_empty_state)
  have ser: "list_all (\<lambda>e. \<exists>bs. serializeEntry null_codec e = Inr bs) (entries_from (of_nat 0) sample_calls)"
    using sample_calls_serialize by (simp add: list_all_iff) blast
  have "length (concat (map (entry_frame null_codec) (entries_from 0 sample_calls))) = 68"
    by (simp add: sample_calls_def entry_frame_def serializeEntry_def new_entry_def bytes_of_string_def)
  then have "length (content (wal_file w0))
      + length (concat (map (entry_frame null_codec) (entries_from (of_nat 0) sample_calls))) \<le> max_offset"
    using st0 by (simp add: wal_state_def max_offset_def)
  from WAL_WriteEntries_succeeds [OF st0 ser this]
  obtain w where w: "WAL_WriteEntries null_codec w0 sample_calls = Inr w"
    by blast
  have len: "length sample_calls = 2"
    by (simp add: sample_calls_def)
  from WAL_sequences_contiguous [OF w0 w] have
    a: "\<exists>payloads. map (serializeEntry null_codec) (entries_from 0 sample_calls) = map Inr payloads \<and>
             content (wal_file w) =
               WAL_header_of (sequence w) @ concat (map (\<lambda>bs. PutUint32 (of_nat (length bs)) @ bs) payloads) \<and>
             map (\<lambda>bs. unat (entry_sequence bs)) payloads = [1..<Suc (length sample_calls)]"
    and b: "\<forall>k \<le> length sample_calls. \<exists>wk.
           WAL_WriteEntries null_codec w0 (take k sample_calls) = Inr wk \<and>
           unat (sequence wk) = k \<and>
           unat (header_sequence (content (wal_file wk))) = k"
    by blast+
  have upt: "[1..<Suc (length sample_calls)] = [1, 2]"
    by (simp add: len upt_rec)
  from b [rule_format, of 2] w have hdr: "unat (sequence w) = 2 \<and> unat (header_sequence (content (wal_file w))) = 2"
    by (simp add: len)
  from a have a': "\<exists>payloads. map (serializeEntry null_codec) (entries_from 0 sample_calls) = map Inr payloads \<and>
             content (wal_file w) =
               WAL_header_of (sequence w) @ concat (map (\<lambda>bs. PutUint32 (of_nat (length bs)) @ bs) payloads) \<and>
             map (\<lambda>bs. unat (entry_sequence bs)) payloads = [1, 2]"
    unfolding upt .
  show ?thesis
    by (rule exI [of _ w0], rule exI [of _ w]) (use w0 w hdr a' in simp)
qed

section \<open>Where a segment writes a document\<close>

lemma length_Segment_header_of [simp]: "length (Segment_header_of n c io) = 34"
  by (simp add: Segment_header_of_def SegmentHeader_bytes_def SegmentMagic_def)

lemma sint_of_nat_offset:
  assumes "n \<le> max_offset"
  shows "sint (of_nat n :: 64 word) = int n"
proof -
  have "int n < 2 ^ 63"
    using assms by (simp add: max_offset_def)
  then show ?thesis
    by (simp add: signed_of_nat signed_take_bit_int_eq_self)
qed

lemma Segment_updateHeader_Inr:
  assumes "Segment_updateHeader s now = Inr s'"
  shows "s' = s\<lparr>segment_Created := (if segment_Created s = 0 then now else segment_Created s),
                segment_file := (segment_file s)\<lparr>content :=
                  Segment_header_of (DocCount s) (if segment_Created s = 0 then now else segment_Created s) 0
                  @ drop 34 (content (segment_file s))\<rparr>\<rparr>"
  using assms
  by (auto simp: Segment_updateHeader_def Segment_writeHeader_def file_Seek_def file_Write_def Let_def
      Segment_header_of_def [symmetric] split: sum.splits if_splits)

lemma write_offset_Inr:
  assumes "write_offset f = Inr (off, f')" and "length (content f) \<le> max_offset"
  shows "pos f' = length (content f') \<and>
         (file_Size f = headerSize \<longrightarrow> off = of_nat headerSize \<and> content f' = content f) \<and>
         (file_Size f \<noteq> headerSize \<and> 0 < sint (IndexOffset (SegmentHeader_of_bytes (take headerSize (content f)))) \<longrightarrow>
            off = IndexOffset (SegmentHeader_of_bytes (take headerSize (content f))) \<and>
            content f' = take (nat (sint (IndexOffset (SegmentHeader_of_bytes (take headerSize (content f)))))) (content f)
              @ replicate (nat (sint (IndexOffset (SegmentHeader_of_bytes (take headerSize (content f)))))
                           - length (content f)) 0) \<and>
         (file_Size f \<noteq> headerSize \<and> sint (IndexOffset (SegmentHeader_of_bytes (take headerSize (content f)))) \<le> 0 \<longrightarrow>
            off = of_nat (file_Size f) \<and> content f' = content f \<and> headerSize \<le> file_Size f)"
proof -
  have small: "sint (of_nat (length (content f)) :: 64 word) = int (length (content f))"
    using assms(2) by (rule sint_of_nat_offset)
  show ?thesis
    using assms(1) small
    by (auto simp: write_offset_def file_Seek_def file_ReadFull_def file_Truncate_def file_Size_def
        headerSize_def Let_def split: sum.splits if_splits prod.splits)
qed


lemma Segment_WriteDocument_content:
  assumes "Segment_WriteDocument C s now doc = Inr s'"
    and "file_Size (segment_file s) \<le> max_offset"
  shows "\<exists>docBytes off f.
     json_Marshal_Document C doc = Inr docBytes \<and>
     write_offset (segment_file s) = Inr (off, f) \<and>
     docIndex s' (ID doc) = Some off \<and>
     content (segment_file s') =
       Segment_header_of (DocCount s + 1) (if segment_Created s = 0 then now else segment_Created s) 0
       @ drop headerSize (content f @ PutUint32 (of_nat (length docBytes)) @ docBytes)"
proof -
  from assms(1) obtain docBytes where m: "json_Marshal_Document C doc = Inr docBytes"
    by (auto simp: Segment_WriteDocument_def split: sum.splits)
  from assms(1) m obtain off f where wo: "write_offset (segment_file s) = Inr (off, f)"
    by (auto simp: Segment_WriteDocument_def split: sum.splits)
  from assms(1) m wo obtain f1 where w1: "file_Write f (PutUint32 (of_nat (length docBytes))) = Inr f1"
    by (auto simp: Segment_WriteDocument_def split: sum.splits)
  from assms(1) m wo w1 obtain f2 where w2: "file_Write f1 docBytes = Inr f2"
    by (auto simp: Segment_WriteDocument_def split: sum.splits)
  from assms(1) m wo w1 w2 have up: "Segment_updateHeader
      (s\<lparr>segment_file := f2, docIndex := (docIndex s)(ID doc \<mapsto> off), DocCount := DocCount s + 1\<rparr>) now = Inr s'"
    by (simp add: Segment_WriteDocument_def)
  have size: "length (content (segment_file s)) \<le> max_offset"
    using assms(2) by (simp add: file_Size_def)
  from write_offset_Inr [OF wo size] have atend: "pos f = length (content f)"
    by blast
  from file_Write_at_end [OF atend w1] have c1: "content f1 = content f @ PutUint32 (of_nat (length docBytes))"
    and p1: "pos f1 = length (content f1)"
    by auto
  from file_Write_at_end [OF p1 w2] have c2: "content f2 = content f @ PutUint32 (of_nat (length docBytes)) @ docBytes"
    by (simp add: c1)
  from Segment_updateHeader_Inr [OF up]
  have "docIndex s' (ID doc) = Some off"
    and "content (segment_file s') =
       Segment_header_of (DocCount s + 1) (if segment_Created s = 0 then now else segment_Created s) 0
       @ drop headerSize (content f @ PutUint32 (of_nat (length docBytes)) @ docBytes)"
    by (simp_all add: c2 headerSize_def)
  with m wo show ?thesis
    by blast
qed

text \<open>
  Claim C6. For every successful \<open>WriteDocument\<close> on an open segment (whose file, as
  every file, is within the range of \<open>int64\<close> offsets), the document was marshalled to
  \<open>docBytes\<close>, the segment's index maps the document's ID to the write offset, and the
  file is a header followed by what the old file held behind its header up to the write
  offset, then the record (the length of \<open>docBytes\<close> and \<open>docBytes\<close>), where the
  write offset is: the header size when the file size equals the header size; otherwise
  the header's index offset when that is greater than 0, the file having been cut (or
  zero-filled) to that offset; otherwise the old size of the file.
\<close>

theorem Segment_WriteDocument_offset:
  assumes "Segment_WriteDocument C s now doc = Inr s'"
    and "file_Size (segment_file s) \<le> max_offset"
  shows "\<exists>docBytes header.
     json_Marshal_Document C doc = Inr docBytes \<and> length header = headerSize \<and>
     (file_Size (segment_file s) = headerSize \<longrightarrow>
        docIndex s' (ID doc) = Some (of_nat headerSize) \<and>
        content (segment_file s') = header @ PutUint32 (of_nat (length docBytes)) @ docBytes) \<and>
     (file_Size (segment_file s) \<noteq> headerSize \<and>
      0 < sint (IndexOffset (SegmentHeader_of_bytes (take headerSize (content (segment_file s))))) \<longrightarrow>
        docIndex s' (ID doc) = Some (IndexOffset (SegmentHeader_of_bytes (take headerSize (content (segment_file s))))) \<and>
        content (segment_file s') =
          header @ drop headerSize
            (take (nat (sint (IndexOffset (SegmentHeader_of_bytes (take headerSize (content (segment_file s)))))))
               (content (segment_file s))
             @ replicate (nat (sint (IndexOffset (SegmentHeader_of_bytes (take headerSize (content (segment_file s))))))
                          - file_Size (segment_file s)) 0
             @ PutUint32 (of_nat (length docBytes)) @ docBytes)) \<and>
     (file_Size (segment_file s) \<noteq> headerSize \<and>
      sint (IndexOffset (SegmentHeader_of_bytes (take headerSize (content (segment_file s))))) \<le> 0 \<longrightarrow>
        docIndex s' (ID doc) = Some (of_nat (file_Size (segment_file s))) \<and>
        content (segment_file s') =
          header @ drop headerSize (content (segment_file s)) @ PutUint32 (of_nat (length docBytes)) @ docBytes)"
proof -
  from Segment_WriteDocument_content [OF assms] obtain docBytes off f
    where m: "json_Marshal_Document C doc = Inr docBytes"
      and wo: "write_offset (segment_file s) = Inr (off, f)"
      and idx: "docIndex s' (ID doc) = Some off"
      and cont0: "content (segment_file s') =
         Segment_header_of (DocCount s + 1) (if segment_Created s = 0 then now else segment_Created s) 0
         @ drop headerSize (content f @ PutUint32 (of_nat (length docBytes)) @ docBytes)"
    by blast
  have size: "length (content (segment_file s)) \<le> max_offset"
    using assms(2) by (simp add: file_Size_def)
  define f0 where "f0 = segment_file s"
  define io where "io = IndexOffset (SegmentHeader_of_bytes (take headerSize (content f0)))"
  define rec where "rec = PutUint32 (of_nat (length docBytes)) @ docBytes"
  define header where "header = Segment_header_of (DocCount s + 1) (if segment_Created s = 0 then now else segment_Created s) 0"
  from write_offset_Inr [OF wo size]
  have case1: "file_Size f0 = headerSize \<Longrightarrow> off = of_nat headerSize \<and> content f = content f0"
    and case2: "file_Size f0 \<noteq> headerSize \<Longrightarrow> 0 < sint io \<Longrightarrow>
        off = io \<and> content f = take (nat (sint io)) (content f0) @ replicate (nat (sint io) - length (content f0)) 0"
    and case3: "file_Size f0 \<noteq> headerSize \<Longrightarrow> sint io \<le> 0 \<Longrightarrow>
        off = of_nat (file_Size f0) \<and> content f = content f0 \<and> headerSize \<le> file_Size f0"
    unfolding f0_def io_def by blast+
  have cont: "content (segment_file s') = header @ drop headerSize (content f @ rec)"
    by (simp add: cont0 header_def rec_def)
  have len: "length header = headerSize"
    by (simp add: header_def headerSize_def)
  have A: "file_Size f0 = headerSize \<longrightarrow>
        docIndex s' (ID doc) = Some (of_nat headerSize) \<and> content (segment_file s') = header @ rec"
    using case1 by (simp add: idx cont file_Size_def)
  have B: "file_Size f0 \<noteq> headerSize \<and> 0 < sint io \<longrightarrow>
        docIndex s' (ID doc) = Some io \<and>
        content (segment_file s') =
          header @ drop headerSize
            (take (nat (sint io)) (content f0) @ replicate (nat (sint io) - file_Size f0) 0 @ rec)"
    using case2 by (simp add: idx cont file_Size_def)
  have C: "file_Size f0 \<noteq> headerSize \<and> sint io \<le> 0 \<longrightarrow>
        docIndex s' (ID doc) = Some (of_nat (file_Size f0)) \<and>
        content (segment_file s') = header @ drop headerSize (content f0) @ rec"
    using case3 by (simp add: idx cont file_Size_def)
  from m len A B C show ?thesis
    unfolding f0_def io_def rec_def by blast
qed

lemma SegmentHeader_roundtrip:
  assumes "length (header_Magic h) = 4" and "length (header_Reserved h) = 8"
  shows "SegmentHeader_of_bytes (SegmentHeader_bytes h @ rest) = h"
  using assms
  by (simp add: SegmentHeader_of_bytes_def SegmentHeader_bytes_def Uint16_PutUint16 Uint32_PutUint32
      Uint64_PutUint64)

lemma length_sample_record [simp]: "length sample_record = 6"
  by (simp add: sample_record_def bytes_of_string_def)

lemma Segment_writeHeader_eq:
  "Segment_writeHeader s =
     (case file_Write (segment_file s) (Segment_header_of (DocCount s) (segment_Created s) 0) of
        Inl e \<Rightarrow> Inl (Wrapped ''failed to write segment header'' e)
      | Inr f \<Rightarrow> Inr (s\<lparr>segment_file := f\<rparr>))"
  by (simp add: Segment_writeHeader_def Segment_header_of_def Let_def)

lemma Segment_header_of_decode:
  "SegmentHeader_of_bytes (Segment_header_of n c io @ rest) =
     \<lparr>header_Magic = bytes_of_string SegmentMagic, header_Version = SegmentVersion,
      header_DocCount = word_of_int n, header_Created = c, IndexOffset = io,
      header_Reserved = replicate 8 0\<rparr>"
  unfolding Segment_header_of_def
  by (rule SegmentHeader_roundtrip) (simp_all add: SegmentMagic_def)

lemma Segment_header_of_decode_take [simp]:
  "SegmentHeader_of_bytes (take 34 (Segment_header_of n c io @ rest)) =
     \<lparr>header_Magic = bytes_of_string SegmentMagic, header_Version = SegmentVersion,
      header_DocCount = word_of_int n, header_Created = c, IndexOffset = io,
      header_Reserved = replicate 8 0\<rparr>"
  using Segment_header_of_decode [of n c io "[]"] by simp

lemma Segment_header_of_decode_all [simp]:
  "SegmentHeader_of_bytes (Segment_header_of n c io) =
     \<lparr>header_Magic = bytes_of_string SegmentMagic, header_Version = SegmentVersion,
      header_DocCount = word_of_int n, header_Created = c, IndexOffset = io,
      header_Reserved = replicate 8 0\<rparr>"
  using Segment_header_of_decode [of n c io "[]"] by simp

lemma Segment_header_of_fold:
  "SegmentHeader_bytes
     \<lparr>header_Magic = bytes_of_string SegmentMagic, header_Version = SegmentVersion,
      header_DocCount = d, header_Created = c, IndexOffset = io,
      header_Reserved = replicate 8 0\<rparr> = Segment_header_of (uint d) c io"
  by (simp add: Segment_header_of_def)

lemmas segment_eval = Segment_writeHeader_eq file_Write_def file_Seek_def file_Size_def headerSize_def
  max_offset_def sample_segment_def Let_def Segment_updateHeader_def write_offset_def
  json_Marshal_Document_def brace_codec_def file_ReadFull_def file_Truncate_def file_SeekEnd_def

lemma length_sample_tail [simp]: "length sample_tail = 26"
  by (simp add: sample_tail_def)

lemma sample_open:
  "Segment_Open ''seg1'' ''segment_seg1.dat'' 7 [] = Inr (sample_segment (Segment_header_of 0 7 0) 34 0 Map.empty)"
  by (simp add: Segment_Open_def segment_eval SegmentVersion_def)

lemma sample_write_1:
  "Segment_WriteDocument brace_codec (sample_segment (Segment_header_of 0 7 0) 34 0 Map.empty) 8 (doc_of ''1'')
     = Inr (sample_segment (Segment_header_of 1 7 0 @ sample_record) 40 1 [''1'' \<mapsto> 34])"
  by (simp add: Segment_WriteDocument_def segment_eval doc_of_def sample_record_def)

lemma sample_write_2:
  "Segment_WriteDocument brace_codec
       (sample_segment (Segment_header_of 1 7 0 @ sample_record) 40 1 [''1'' \<mapsto> 34]) 9 (doc_of ''2'')
     = Inr (sample_segment (Segment_header_of 2 7 0 @ sample_record @ sample_record) 46 2
              [''1'' \<mapsto> 34, ''2'' \<mapsto> 40])"
  by (simp add: Segment_WriteDocument_def segment_eval doc_of_def sample_record_def)

lemma sample_flush:
  "Segment_Flush (sample_segment (Segment_header_of 2 7 0 @ sample_record @ sample_record) 46 2
              [''1'' \<mapsto> 34, ''2'' \<mapsto> 40]) [''1'', ''2'']
     = Inr (sample_segment (Segment_header_of 2 7 46 @ sample_record @ sample_record @ sample_tail) 72 2
              [''1'' \<mapsto> 34, ''2'' \<mapsto> 40])"
  by (simp add: Segment_Flush_def Segment_writeIndex_def segment_eval sample_tail_def
      Segment_header_of_fold)

lemma sample_write_3:
  "Segment_WriteDocument brace_codec
       (sample_segment (Segment_header_of 2 7 46 @ sample_record @ sample_record @ sample_tail) 72 2
              [''1'' \<mapsto> 34, ''2'' \<mapsto> 40]) 10 (doc_of ''3'')
     = Inr (sample_segment (Segment_header_of 3 7 0 @ sample_record @ sample_record @ sample_record) 52 3
              [''1'' \<mapsto> 34, ''2'' \<mapsto> 40, ''3'' \<mapsto> 46])"
  by (simp add: Segment_WriteDocument_def segment_eval doc_of_def sample_record_def)


theorem Segment_WriteDocument_offset_witness:
  "Segment_WriteDocument brace_codec (sample_segment (Segment_header_of 0 7 0) 34 0 Map.empty) 8 (doc_of ''1'')
     = Inr (sample_segment (Segment_header_of 1 7 0 @ sample_record) 40 1 [''1'' \<mapsto> 34]) \<and>
   file_Size (segment_file (sample_segment (Segment_header_of 0 7 0) 34 0 Map.empty)) = headerSize \<and>
   docIndex (sample_segment (Segment_header_of 1 7 0 @ sample_record) 40 1 [''1'' \<mapsto> 34]) ''1''
     = Some (of_nat headerSize) \<and>
   Segment_WriteDocument brace_codec
       (sample_segment (Segment_header_of 1 7 0 @ sample_record) 40 1 [''1'' \<mapsto> 34]) 9 (doc_of ''2'')
     = Inr (sample_segment (Segment_header_of 2 7 0 @ sample_record @ sample_record) 46 2
              [''1'' \<mapsto> 34, ''2'' \<mapsto> 40]) \<and>
   file_Size (segment_file (sample_segment (Segment_header_of 1 7 0 @ sample_record) 40 1 [''1'' \<mapsto> 34]))
     = 40 \<and>
   sint (IndexOffset (SegmentHeader_of_bytes (take headerSize (Segment_header_of 1 7 0 @ sample_record)))) = 0 \<and>
   docIndex (sample_segment (Segment_header_of 2 7 0 @ sample_record @ sample_record) 46 2
              [''1'' \<mapsto> 34, ''2'' \<mapsto> 40]) ''2'' = Some 40 \<and>
   Segment_WriteDocument brace_codec
       (sample_segment (Segment_header_of 2 7 46 @ sample_record @ sample_record @ sample_tail) 72 2
              [''1'' \<mapsto> 34, ''2'' \<mapsto> 40]) 10 (doc_of ''3'')
     = Inr (sample_segment (Segment_header_of 3 7 0 @ sample_record @ sample_record @ sample_record) 52 3
              [''1'' \<mapsto> 34, ''2'' \<mapsto> 40, ''3'' \<mapsto> 46]) \<and>
   file_Size (segment_file
       (sample_segment (Segment_header_of 2 7 46 @ sample_record @ sample_record @ sample_tail) 72 2
              [''1'' \<mapsto> 34, ''2'' \<mapsto> 40])) = 72 \<and>
   sint (IndexOffset (SegmentHeader_of_bytes (take headerSize
       (Segment_header_of 2 7 46 @ sample_record @ sample_record @ sample_tail)))) = 46 \<and>
   docIndex (sample_segment (Segment_header_of 3 7 0 @ sample_record @ sample_record @ sample_record) 52 3
              [''1'' \<mapsto> 34, ''2'' \<mapsto> 40, ''3'' \<mapsto> 46]) ''3'' = Some 46 \<and>
   content (segment_file
       (sample_segment (Segment_header_of 3 7 0 @ sample_record @ sample_record @ sample_record) 52 3
              [''1'' \<mapsto> 34, ''2'' \<mapsto> 40, ''3'' \<mapsto> 46]))
     = Segment_header_of 3 7 0 @ sample_record @ sample_record @ sample_record"
proof -
  have b1: "file_Size (segment_file (sample_segment (Segment_header_of 0 7 0) 34 0 Map.empty)) \<le> max_offset"
    and b2: "file_Size (segment_file (sample_segment (Segment_header_of 1 7 0 @ sample_record) 40 1 [''1'' \<mapsto> 34]))
      \<le> max_offset"
    and b3: "file_Size (segment_file
       (sample_segment (Segment_header_of 2 7 46 @ sample_record @ sample_record @ sample_tail) 72 2
              [''1'' \<mapsto> 34, ''2'' \<mapsto> 40])) \<le> max_offset"
    by (simp_all add: file_Size_def sample_segment_def max_offset_def)
  have sizes:
    "file_Size (segment_file (sample_segment (Segment_header_of 0 7 0) 34 0 Map.empty)) = headerSize"
    "file_Size (segment_file (sample_segment (Segment_header_of 1 7 0 @ sample_record) 40 1 [''1'' \<mapsto> 34]))
       = 40"
    "file_Size (segment_file
       (sample_segment (Segment_header_of 2 7 46 @ sample_record @ sample_record @ sample_tail) 72 2
              [''1'' \<mapsto> 34, ''2'' \<mapsto> 40])) = 72"
    "sint (IndexOffset (SegmentHeader_of_bytes (take headerSize (Segment_header_of 1 7 0 @ sample_record)))) = 0"
    "sint (IndexOffset (SegmentHeader_of_bytes (take headerSize
       (Segment_header_of 2 7 46 @ sample_record @ sample_record @ sample_tail)))) = 46"
    by (simp_all add: file_Size_def sample_segment_def headerSize_def)
  have index:
    "docIndex (sample_segment (Segment_header_of 1 7 0 @ sample_record) 40 1 [''1'' \<mapsto> 34]) ''1''
       = Some (of_nat headerSize)"
    "docIndex (sample_segment (Segment_header_of 2 7 0 @ sample_record @ sample_record) 46 2
              [''1'' \<mapsto> 34, ''2'' \<mapsto> 40]) ''2'' = Some 40"
    "docIndex (sample_segment (Segment_header_of 3 7 0 @ sample_record @ sample_record @ sample_record) 52 3
              [''1'' \<mapsto> 34, ''2'' \<mapsto> 40, ''3'' \<mapsto> 46]) ''3'' = Some 46"
    "content (segment_file
       (sample_segment (Segment_header_of 3 7 0 @ sample_record @ sample_record @ sample_record) 52 3
              [''1'' \<mapsto> 34, ''2'' \<mapsto> 40, ''3'' \<mapsto> 46]))
     = Segment_header_of 3 7 0 @ sample_record @ sample_record @ sample_record"
    by (simp_all add: sample_segment_def headerSize_def)
  show ?thesis
    using Segment_WriteDocument_offset [OF sample_write_1 b1]
      Segment_WriteDocument_offset [OF sample_write_2 b2]
      Segment_WriteDocument_offset [OF sample_write_3 b3]
    by (simp only: sample_write_1 sample_write_2 sample_write_3 sizes index simp_thms)
qed


section \<open>Reading back a written document\<close>

lemma Segment_ReadDocument_record:
  assumes "docIndex s docid = Some (of_nat headerSize)"
    and "content (segment_file s) = header @ PutUint32 (of_nat (length docBytes)) @ docBytes"
    and "length header = headerSize" and "length docBytes < 2 ^ 32"
  shows "Segment_ReadDocument C s docid =
           (case json_Unmarshal_Document C docBytes of
              Inl e \<Rightarrow> Inl (Wrapped ''failed to unmarshal document'' e)
            | Inr doc \<Rightarrow> Inr doc)"
proof -
  have off: "sint (of_nat headerSize :: 64 word) = 34"
    by (simp add: headerSize_def)
  have f: "(segment_file s)\<lparr>pos := 34\<rparr> = reading_at header (PutUint32 (of_nat (length docBytes)) @ docBytes)"
    using assms(2,3) by (simp add: reading_at_def headerSize_def)
  have r: "file_ReadFull (reading_at (header @ PutUint32 (of_nat (length docBytes))) docBytes) (length docBytes)
      = Inr (docBytes, reading_at ((header @ PutUint32 (of_nat (length docBytes))) @ docBytes) [])"
    using file_ReadFull_reading_at [of docBytes "length docBytes" "header @ PutUint32 (of_nat (length docBytes))" "[]"]
    by simp
  show ?thesis
    by (simp add: Segment_ReadDocument_def assms(1) off file_Seek_def f file_ReadFull_PutUint32
        Uint32_PutUint32_Nil unat_length_32 [OF assms(4)] r)
qed

lemma Segment_WriteDocument_fresh:
  assumes "Segment_WriteDocument C s now doc = Inr s'"
    and "file_Size (segment_file s) = headerSize"
  shows "\<exists>docBytes header.
     json_Marshal_Document C doc = Inr docBytes \<and> length header = headerSize \<and>
     docIndex s' (ID doc) = Some (of_nat headerSize) \<and>
     content (segment_file s') = header @ PutUint32 (of_nat (length docBytes)) @ docBytes"
proof -
  have size: "file_Size (segment_file s) \<le> max_offset"
    by (simp add: assms(2) headerSize_def max_offset_def)
  from Segment_WriteDocument_content [OF assms(1) size] obtain docBytes off f
    where m: "json_Marshal_Document C doc = Inr docBytes"
      and wo: "write_offset (segment_file s) = Inr (off, f)"
      and idx: "docIndex s' (ID doc) = Some off"
      and cont: "content (segment_file s') =
         Segment_header_of (DocCount s + 1) (if segment_Created s = 0 then now else segment_Created s) 0
         @ drop headerSize (content f @ PutUint32 (of_nat (length docBytes)) @ docBytes)"
    by blast
  from size have "length (content (segment_file s)) \<le> max_offset"
    by (simp add: file_Size_def)
  from write_offset_Inr [OF wo this] assms(2)
  have off: "off = of_nat headerSize" and f: "content f = content (segment_file s)"
    by blast+
  have "length (content f) = headerSize"
    using assms(2) by (simp add: f file_Size_def)
  then have "content (segment_file s') =
      Segment_header_of (DocCount s + 1) (if segment_Created s = 0 then now else segment_Created s) 0
      @ PutUint32 (of_nat (length docBytes)) @ docBytes"
    by (simp add: cont)
  moreover have "length (Segment_header_of (DocCount s + 1)
      (if segment_Created s = 0 then now else segment_Created s) 0) = headerSize"
    by (simp add: headerSize_def)
  ultimately show ?thesis
    using m idx off by blast
qed

text \<open>
  Claim C1. A document written to a segment that holds only its header (whose version
  is an \<open>int64\<close>, with a JSON text shorter than \<open>2^32\<close> bytes that
  \<open>json.Unmarshal\<close> parses back to the value \<open>MarshalJSON\<close> built) is read back
  without its vector and date fields: every field holding a text, keyword, numeric or
  boolean carrier comes back, and no field holding a vector or date carrier does (a
  field holding a value of another type comes back as the carrier that its type and
  JSON value make, if they make one). The round trip does not preserve every declared
  field type.
\<close>

theorem Segment_ReadDocument_drops_vector_and_date:
  assumes "Segment_WriteDocument C s now d = Inr s'"
    and "file_Size (segment_file s) = headerSize"
    and "\<forall>docBytes. Marshal C (Document_MarshalJSON d) = Some docBytes \<longrightarrow>
           length docBytes < 2 ^ 32 \<and> Unmarshal C docBytes = Some (Document_MarshalJSON d)"
    and "- (2 ^ 63) \<le> Version d" and "Version d < 2 ^ 63"
  shows "Segment_ReadDocument C s' (ID d)
           = Inr (d\<lparr>Fields := decoded_fields (Fields d)\<rparr>)"
proof -
  from Segment_WriteDocument_fresh [OF assms(1,2)] obtain docBytes header
    where m: "json_Marshal_Document C d = Inr docBytes" and h: "length header = headerSize"
      and i: "docIndex s' (ID d) = Some (of_nat headerSize)"
      and c: "content (segment_file s') = header @ PutUint32 (of_nat (length docBytes)) @ docBytes"
    by blast
  from m have "Marshal C (Document_MarshalJSON d) = Some docBytes"
    by (simp add: json_Marshal_Document_def split: option.splits)
  with assms(3) have l: "length docBytes < 2 ^ 32"
    and u: "Unmarshal C docBytes = Some (Document_MarshalJSON d)"
    by blast+
  from u have "json_Unmarshal_Document C docBytes = Document_UnmarshalJSON (Document_MarshalJSON d)"
    by (simp add: json_Unmarshal_Document_def)
  then show ?thesis
    by (simp add: Segment_ReadDocument_record [OF i c h l]
        Document_UnmarshalJSON_MarshalJSON [OF assms(4,5)])
qed

lemma length_vector_text: "length vector_text = 286"
  by (simp add: vector_text_def)

lemma vector_write:
  "Segment_WriteDocument vector_codec (sample_segment (Segment_header_of 0 7 0) 34 0 Map.empty) 8 vector_doc
     = Inr (sample_segment (Segment_header_of 1 7 0 @ PutUint32 286 @ vector_text) 324 1 [''1'' \<mapsto> 34])"
proof -
  have id: "ID vector_doc = ''1''"
    by (simp add: vector_doc_def)
  show ?thesis
    by (simp add: Segment_WriteDocument_def segment_eval vector_codec_def length_vector_text id)
qed

theorem Segment_ReadDocument_drops_vector_and_date_witness:
  "Segment_WriteDocument vector_codec (sample_segment (Segment_header_of 0 7 0) 34 0 Map.empty) 8 vector_doc
     = Inr (sample_segment (Segment_header_of 1 7 0 @ PutUint32 286 @ vector_text) 324 1 [''1'' \<mapsto> 34]) \<and>
   Segment_ReadDocument vector_codec
       (sample_segment (Segment_header_of 1 7 0 @ PutUint32 286 @ vector_text) 324 1 [''1'' \<mapsto> 34]) ''1''
     = Inr (vector_doc\<lparr>Fields := [(''title'', TextValue ''Hello World'')]\<rparr>) \<and>
   map_of (Fields vector_doc) ''embedding'' = Some (VectorValue [1, 2] 2) \<and>
   map_of (Fields vector_doc) ''published'' = Some (DateValue ''2024-01-01T00:00:00Z'')"
proof -
  have v: "- (2 ^ 63) \<le> Version vector_doc" "Version vector_doc < 2 ^ 63"
    by (simp_all add: vector_doc_def)
  have f: "decoded_fields (Fields vector_doc) = [(''title'', TextValue ''Hello World'')]"
    by (simp add: vector_doc_def decoded_fields_def map_filter_simps)
  have id: "ID vector_doc = ''1''"
    by (simp add: vector_doc_def)
  have fresh: "file_Size (segment_file (sample_segment (Segment_header_of 0 7 0) 34 0 Map.empty)) = headerSize"
    by (simp add: sample_segment_def file_Size_def headerSize_def)
  have codec: "\<forall>docBytes. Marshal vector_codec (Document_MarshalJSON vector_doc) = Some docBytes \<longrightarrow>
           length docBytes < 2 ^ 32 \<and> Unmarshal vector_codec docBytes = Some (Document_MarshalJSON vector_doc)"
    by (simp add: vector_codec_def length_vector_text)
  have m: "map_of (Fields vector_doc) ''embedding'' = Some (VectorValue [1, 2] 2)"
    "map_of (Fields vector_doc) ''published'' = Some (DateValue ''2024-01-01T00:00:00Z'')"
    by (simp_all add: vector_doc_def)
  from Segment_ReadDocument_drops_vector_and_date [OF vector_write fresh codec v] vector_write m
  show ?thesis
    by (simp only: f id simp_thms)
qed


section \<open>Index manager\<close>

lemma ReadDocument_loop_Inl:
  "ReadDocument_loop C segs docid = Inl e \<longleftrightarrow>
     e = DocumentNotFound docid \<and> (\<forall>seg \<in> set segs. \<exists>e'. Segment_ReadDocument C seg docid = Inl e')"
  by (induction segs) (auto split: sum.splits)

lemma ReadDocument_loop_newest:
  assumes "\<forall>n \<in> set newer. \<exists>e'. Segment_ReadDocument C n docid = Inl e'"
    and "Segment_ReadDocument C seg docid = Inr doc"
  shows "ReadDocument_loop C (newer @ seg # older) docid = Inr doc"
  using assms by (induction newer) (auto split: sum.splits)

lemma ValidateDocument_step:
  "ValidateDocument_loop sch ((name, v) # rest) =
     (case schema_Fields sch name of
        None \<Rightarrow> ValidateDocument_loop sch rest
      | Some def \<Rightarrow>
          if FieldValue_Type v \<noteq> Type def
          then Some (SchemaValidationError name (Type def) (FieldValue_Type v) [])
          else if (\<exists>vec vdim. v = VectorValue vec vdim \<and> vdim \<noteq> VectorDim def)
          then Some (SchemaValidationError name [] [] ''vector dimension mismatch'')
          else ValidateDocument_loop sch rest)"
proof (cases "schema_Fields sch name")
  case None
  then show ?thesis by simp
next
  case (Some def)
  show ?thesis
  proof (cases v)
    case (VectorValue vec vdim)
    with Some show ?thesis
      by (simp add: FieldTypeVector_def)
  qed (use Some in \<open>simp_all\<close>)
qed

lemma ValidateDocument_loop_None:
  "ValidateDocument_loop sch fs = None \<longleftrightarrow>
     \<not> (\<exists>(name, v) \<in> set fs. \<exists>def.
          schema_Fields sch name = Some def \<and>
          (FieldValue_Type v \<noteq> Type def \<or>
           (\<exists>vec vdim. v = VectorValue vec vdim \<and> vdim \<noteq> VectorDim def)))"
proof (induction fs)
  case Nil
  show ?case by simp
next
  case (Cons f fs)
  obtain name v where f: "f = (name, v)"
    by (cases f)
  show ?case
    unfolding f ValidateDocument_step using Cons.IH
    by (cases "schema_Fields sch name") (simp_all del: ValidateDocument_loop.simps)
qed

lemma ValidateDocument_loop_Some:
  "ValidateDocument_loop sch fs = Some e \<Longrightarrow> is_SchemaValidation e"
  by (induction sch fs rule: ValidateDocument_loop.induct)
     (auto split: option.splits if_splits FieldValue.splits)


lemma file_Write_not_SV: "file_Write f bs = Inl e \<Longrightarrow> \<not> is_SchemaValidation e"
  by (auto simp: file_Write_def split: if_splits)

lemma file_Seek_not_SV: "file_Seek f n = Inl e \<Longrightarrow> \<not> is_SchemaValidation e"
  by (auto simp: file_Seek_def split: if_splits)

lemma file_ReadFull_not_SV: "file_ReadFull f n = Inl e \<Longrightarrow> \<not> is_SchemaValidation e"
  by (auto simp: file_ReadFull_def split: if_splits)

lemma file_Truncate_not_SV: "file_Truncate f n = Inl e \<Longrightarrow> \<not> is_SchemaValidation e"
  by (auto simp: file_Truncate_def split: if_splits)

lemma json_Marshal_Document_not_SV: "json_Marshal_Document C d = Inl e \<Longrightarrow> \<not> is_SchemaValidation e"
  by (auto simp: json_Marshal_Document_def split: option.splits)

lemmas io_not_SV = file_Write_not_SV file_Seek_not_SV file_ReadFull_not_SV file_Truncate_not_SV
  json_Marshal_Document_not_SV

lemma WAL_writeHeader_not_SV: "WAL_writeHeader w = Inl e \<Longrightarrow> \<not> is_SchemaValidation e"
  by (auto simp: WAL_writeHeader_def Let_def split: sum.splits dest: io_not_SV)

lemma WAL_updateHeader_not_SV: "WAL_updateHeader w = Inl e \<Longrightarrow> \<not> is_SchemaValidation e"
  by (auto simp: WAL_updateHeader_def Let_def split: sum.splits dest: io_not_SV WAL_writeHeader_not_SV)

lemma serializeEntry_not_SV: "serializeEntry C entry = Inl e \<Longrightarrow> \<not> is_SchemaValidation e"
  by (auto simp: serializeEntry_def Let_def split: sum.splits option.splits dest: io_not_SV)

lemma WAL_WriteEntry_not_SV:
  "WAL_WriteEntry C w now t i d doc = Inl e \<Longrightarrow> \<not> is_SchemaValidation e"
  by (auto simp: WAL_WriteEntry_def Let_def split: sum.splits
      dest: io_not_SV WAL_updateHeader_not_SV serializeEntry_not_SV)

lemma Segment_writeHeader_not_SV: "Segment_writeHeader s = Inl e \<Longrightarrow> \<not> is_SchemaValidation e"
  by (auto simp: Segment_writeHeader_def Let_def split: sum.splits dest: io_not_SV)

lemma Segment_updateHeader_not_SV: "Segment_updateHeader s now = Inl e \<Longrightarrow> \<not> is_SchemaValidation e"
  by (auto simp: Segment_updateHeader_def Let_def split: sum.splits dest: io_not_SV Segment_writeHeader_not_SV)

lemma write_offset_not_SV: "write_offset f = Inl e \<Longrightarrow> \<not> is_SchemaValidation e"
  by (auto simp: write_offset_def Let_def split: sum.splits if_splits prod.splits dest: io_not_SV)

lemma Segment_WriteDocument_not_SV:
  "Segment_WriteDocument C s now doc = Inl e \<Longrightarrow> \<not> is_SchemaValidation e"
  by (auto simp: Segment_WriteDocument_def split: sum.splits prod.splits
      dest: io_not_SV write_offset_not_SV Segment_updateHeader_not_SV)

lemma writeIndex_loop_not_SV:
  "writeIndex_loop f index order = Inl e \<Longrightarrow> \<not> is_SchemaValidation e"
  by (induction f index order rule: writeIndex_loop.induct)
     (auto simp: Let_def split: option.splits sum.splits dest: io_not_SV)

lemma Segment_Flush_not_SV:
  "Segment_Flush s order = Inl e \<Longrightarrow> \<not> is_SchemaValidation e"
  by (auto simp: Segment_Flush_def Segment_writeIndex_def Let_def split: sum.splits prod.splits
      dest: io_not_SV writeIndex_loop_not_SV)

lemma WriteDocument_schema_error_iff:
  "(\<exists>e. IndexManager_WriteDocument C im now_wal now_seg order doc = Inl e \<and> is_SchemaValidation e)
     \<longleftrightarrow> type_or_dimension_mismatch (manager_Schema im) doc"
proof (cases "ValidateDocument (manager_Schema im) doc")
  case None
  then have no: "\<not> type_or_dimension_mismatch (manager_Schema im) doc"
    by (simp add: ValidateDocument_def ValidateDocument_loop_None type_or_dimension_mismatch_def)
  have "\<not> is_SchemaValidation e"
    if "IndexManager_WriteDocument C im now_wal now_seg order doc = Inl e" for e
    using that None
    by (auto simp: IndexManager_WriteDocument_def split: sum.splits if_splits
        dest: WAL_WriteEntry_not_SV Segment_WriteDocument_not_SV Segment_Flush_not_SV)
  with no show ?thesis
    by blast
next
  case (Some e)
  then have yes: "type_or_dimension_mismatch (manager_Schema im) doc"
    using ValidateDocument_loop_None [of "manager_Schema im" "Fields doc"]
    by (simp add: ValidateDocument_def type_or_dimension_mismatch_def)
  from Some have "is_SchemaValidation e"
    by (simp add: ValidateDocument_def ValidateDocument_loop_Some)
  with Some yes show ?thesis
    by (simp add: IndexManager_WriteDocument_def)
qed


text \<open>
  Claim C10. \<open>ReadDocument\<close> of the manager returns an error exactly when every
  segment returned an error, whatever these errors are, and the error is then
  \<open>document not found\<close>; and when the segments newer than a segment all return errors
  and that segment returns a document, the manager returns this document.
\<close>

theorem IndexManager_ReadDocument_falls_through:
  "(IndexManager_ReadDocument C im docid = Inl e \<longleftrightarrow>
      e = DocumentNotFound docid \<and>
      (\<forall>seg \<in> set (segments im). \<exists>e'. Segment_ReadDocument C seg docid = Inl e')) \<and>
   (segments im = older @ seg # newer \<and>
    (\<forall>n \<in> set newer. \<exists>e'. Segment_ReadDocument C n docid = Inl e') \<and>
    Segment_ReadDocument C seg docid = Inr doc \<longrightarrow>
      IndexManager_ReadDocument C im docid = Inr doc)"
proof -
  have "IndexManager_ReadDocument C im docid = Inr doc"
    if "segments im = older @ seg # newer"
      and "\<forall>n \<in> set newer. \<exists>e'. Segment_ReadDocument C n docid = Inl e'"
      and "Segment_ReadDocument C seg docid = Inr doc"
  proof -
    have "\<forall>n \<in> set (rev newer). \<exists>e'. Segment_ReadDocument C n docid = Inl e'"
      using that(2) by simp
    from ReadDocument_loop_newest [OF this that(3)] show ?thesis
      by (simp add: IndexManager_ReadDocument_def that(1))
  qed
  then show ?thesis
    by (simp add: IndexManager_ReadDocument_def ReadDocument_loop_Inl)
qed

lemma corrupt_segment_read:
  "Segment_ReadDocument brace_codec corrupt_segment ''1'' = Inl (Wrapped ''failed to unmarshal document'' JSONError)"
  by (simp add: Segment_ReadDocument_def corrupt_segment_def sample_segment_def file_Seek_def
      file_ReadFull_def Uint32_PutUint32_Nil json_Unmarshal_Document_def brace_codec_def bytes_of_string_def)

lemma short_segment_read:
  "Segment_ReadDocument brace_codec short_segment ''1'' = Inl (Wrapped ''failed to read document length'' EOF)"
  by (simp add: Segment_ReadDocument_def short_segment_def sample_segment_def file_Seek_def
      file_ReadFull_def)

lemma other_segment_read:
  "Segment_ReadDocument brace_codec other_segment ''1'' = Inl (SegmentDocumentNotFound ''1'' ''seg1'')"
  by (simp add: Segment_ReadDocument_def other_segment_def sample_segment_def)

lemma good_segment_read:
  "Segment_ReadDocument brace_codec good_segment ''1''
     = Inr \<lparr>ID = [], Fields = [], Version = 0, Created = [], Updated = []\<rparr>"
  by (simp add: Segment_ReadDocument_def good_segment_def sample_segment_def file_Seek_def
      file_ReadFull_def sample_record_def Uint32_PutUint32_Nil json_Unmarshal_Document_def brace_codec_def
      bytes_of_string_def Document_UnmarshalJSON_def json_string_member_def json_int64_member_def
      json_get_def)

theorem IndexManager_ReadDocument_falls_through_witness:
  "Segment_ReadDocument brace_codec corrupt_segment ''1'' = Inl (Wrapped ''failed to unmarshal document'' JSONError) \<and>
   Segment_ReadDocument brace_codec short_segment ''1'' = Inl (Wrapped ''failed to read document length'' EOF) \<and>
   Segment_ReadDocument brace_codec other_segment ''1'' = Inl (SegmentDocumentNotFound ''1'' ''seg1'') \<and>
   IndexManager_ReadDocument brace_codec (sample_manager [other_segment, short_segment, corrupt_segment]) ''1''
     = Inl (DocumentNotFound ''1'') \<and>
   Segment_ReadDocument brace_codec good_segment ''1''
     = Inr \<lparr>ID = [], Fields = [], Version = 0, Created = [], Updated = []\<rparr> \<and>
   IndexManager_ReadDocument brace_codec (sample_manager [other_segment, good_segment, short_segment, corrupt_segment]) ''1''
     = Inr \<lparr>ID = [], Fields = [], Version = 0, Created = [], Updated = []\<rparr>"
proof -
  note reads = corrupt_segment_read short_segment_read other_segment_read good_segment_read
  have a: "IndexManager_ReadDocument brace_codec (sample_manager [other_segment, short_segment, corrupt_segment]) ''1''
     = Inl (DocumentNotFound ''1'')"
    using IndexManager_ReadDocument_falls_through
      [of brace_codec "sample_manager [other_segment, short_segment, corrupt_segment]" "''1''"
          "DocumentNotFound ''1''"]
    by (simp add: reads sample_manager_def)
  have b: "IndexManager_ReadDocument brace_codec (sample_manager [other_segment, good_segment, short_segment, corrupt_segment]) ''1''
     = Inr \<lparr>ID = [], Fields = [], Version = 0, Created = [], Updated = []\<rparr>"
    using IndexManager_ReadDocument_falls_through
      [of brace_codec "sample_manager [other_segment, good_segment, short_segment, corrupt_segment]" "''1''"
          _ "[other_segment]" good_segment "[short_segment, corrupt_segment]"
          "\<lparr>ID = [], Fields = [], Version = 0, Created = [], Updated = []\<rparr>"]
    by (simp add: reads sample_manager_def)
  from a b reads show ?thesis
    by simp
qed


lemma ValidateDocument_undeclared:
  assumes "\<forall>(name, v) \<in> set (Fields doc). schema_Fields sch name = None"
  shows "ValidateDocument sch doc = None"
  using assms by (auto simp: ValidateDocument_def ValidateDocument_loop_None)

text \<open>
  Claim C7, amended. \<open>WriteDocument\<close> of the manager returns a schema validation
  error (wrapped) if and only if some field that the document carries and the schema
  declares reports another type than declared, or holds a \<open>VectorValue\<close> by value
  whose \<open>Dim\<close> member differs from the declared dimension (the length of the vector
  is not examined, and neither is the \<open>Dim\<close> of a value of another type that reports
  the type vector, such as a pointer to a \<open>VectorValue\<close>); a document all of whose
  fields are undeclared passes validation.
\<close>

theorem WriteDocument_schema_validation:
  "((\<exists>e. IndexManager_WriteDocument C im now_wal now_seg order doc = Inl e \<and> is_SchemaValidation e)
      \<longleftrightarrow> type_or_dimension_mismatch (manager_Schema im) doc) \<and>
   ((\<forall>(name, v) \<in> set (Fields doc). schema_Fields (manager_Schema im) name = None) \<longrightarrow>
      ValidateDocument (manager_Schema im) doc = None \<and>
      \<not> (\<exists>e. IndexManager_WriteDocument C im now_wal now_seg order doc = Inl e \<and> is_SchemaValidation e))"
proof -
  have iff: "(\<exists>e. IndexManager_WriteDocument C im now_wal now_seg order doc = Inl e \<and> is_SchemaValidation e)
      \<longleftrightarrow> type_or_dimension_mismatch (manager_Schema im) doc"
    by (rule WriteDocument_schema_error_iff)
  have "ValidateDocument (manager_Schema im) doc = None \<and> \<not> type_or_dimension_mismatch (manager_Schema im) doc"
    if "\<forall>(name, v) \<in> set (Fields doc). schema_Fields (manager_Schema im) name = None"
    using that ValidateDocument_undeclared [OF that] by (auto simp: type_or_dimension_mismatch_def)
  with iff show ?thesis
    by blast
qed

lemma sample_schema_fields:
  "schema_Fields sample_schema ''title'' = Some \<lparr>Type = FieldTypeText, Indexed = True, Stored = True,
       Analyzed = True, VectorDim = 0, Boost = 1, Description = []\<rparr>"
  "schema_Fields sample_schema ''embedding'' = Some \<lparr>Type = FieldTypeVector, Indexed = True, Stored = True,
       Analyzed = False, VectorDim = 2, Boost = 1, Description = []\<rparr>"
  "schema_Fields sample_schema ''note'' = None"
  by (simp_all add: sample_schema_def)

lemmas field_types = FieldTypeText_def FieldTypeKeyword_def FieldTypeNumeric_def FieldTypeVector_def
  FieldTypeBoolean_def FieldTypeDate_def

lemma sample_mismatches:
  "type_or_dimension_mismatch sample_schema (doc_with [(''title'', NumericValue 3)])"
  "type_or_dimension_mismatch sample_schema (doc_with [(''embedding'', VectorValue [1, 2] 3)])"
  "\<not> type_or_dimension_mismatch sample_schema (doc_with [(''embedding'', VectorValue [1, 2, 3] 2)])"
  "\<not> type_or_dimension_mismatch sample_schema (doc_with [(''note'', NumericValue 3)])"
  "\<not> type_or_dimension_mismatch sample_schema (doc_with [(''embedding'', pointer_vector)])"
  by (simp_all add: type_or_dimension_mismatch_def doc_with_def sample_schema_fields field_types
      pointer_vector_def)

lemma sample_length_mismatches:
  "\<not> type_or_length_mismatch sample_schema (doc_with [(''embedding'', VectorValue [1, 2] 3)])"
  "type_or_length_mismatch sample_schema (doc_with [(''embedding'', VectorValue [1, 2, 3] 2)])"
  by (simp_all add: type_or_length_mismatch_def doc_with_def sample_schema_fields field_types)

lemma manager_Schema_sample [simp]: "manager_Schema (sample_manager segs) = sample_schema"
  by (simp add: sample_manager_def)

lemma sample_validations:
  "ValidateDocument sample_schema (doc_with [(''embedding'', VectorValue [1, 2, 3] 2)]) = None"
  "ValidateDocument sample_schema (doc_with [(''embedding'', VectorValue [1, 2] 3)])
     = Some (SchemaValidationError ''embedding'' [] [] ''vector dimension mismatch'')"
  "ValidateDocument sample_schema (doc_with [(''embedding'', pointer_vector)]) = None"
  by (simp_all add: ValidateDocument_def doc_with_def sample_schema_fields field_types
      pointer_vector_def)

theorem WriteDocument_schema_validation_witness:
  "type_or_dimension_mismatch sample_schema (doc_with [(''title'', NumericValue 3)]) \<and>
   (\<exists>e. IndexManager_WriteDocument brace_codec (sample_manager [good_segment]) 1000 2000 [''1'']
            (doc_with [(''title'', NumericValue 3)]) = Inl e \<and> is_SchemaValidation e) \<and>
   (\<exists>e. IndexManager_WriteDocument brace_codec (sample_manager [good_segment]) 1000 2000 [''1'']
            (doc_with [(''embedding'', VectorValue [1, 2] 3)]) = Inl e \<and> is_SchemaValidation e) \<and>
   schema_Fields sample_schema ''note'' = None \<and>
   ValidateDocument sample_schema (doc_with [(''note'', NumericValue 3)]) = None \<and>
   \<not> (\<exists>e. IndexManager_WriteDocument brace_codec (sample_manager [good_segment]) 1000 2000 [''1'']
            (doc_with [(''note'', NumericValue 3)]) = Inl e \<and> is_SchemaValidation e) \<and>
   FieldValue_Type pointer_vector = FieldTypeVector \<and>
   ValidateDocument sample_schema (doc_with [(''embedding'', pointer_vector)]) = None \<and>
   \<not> (\<exists>e. IndexManager_WriteDocument brace_codec (sample_manager [good_segment]) 1000 2000 [''1'']
            (doc_with [(''embedding'', pointer_vector)]) = Inl e \<and> is_SchemaValidation e)"
proof -
  have p: "FieldValue_Type pointer_vector = FieldTypeVector"
    by (simp add: pointer_vector_def)
  have u: "\<forall>(name, v) \<in> set (Fields (doc_with [(''note'', NumericValue 3)])).
             schema_Fields (manager_Schema (sample_manager [good_segment])) name = None"
    by (simp add: doc_with_def sample_schema_fields)
  show ?thesis
    using WriteDocument_schema_validation
        [of brace_codec "sample_manager [good_segment]" 1000 2000 "[''1'']" "doc_with [(''title'', NumericValue 3)]"]
      WriteDocument_schema_validation
        [of brace_codec "sample_manager [good_segment]" 1000 2000 "[''1'']" "doc_with [(''embedding'', VectorValue [1, 2] 3)]"]
      WriteDocument_schema_validation
        [of brace_codec "sample_manager [good_segment]" 1000 2000 "[''1'']" "doc_with [(''note'', NumericValue 3)]"]
      WriteDocument_schema_validation
        [of brace_codec "sample_manager [good_segment]" 1000 2000 "[''1'']" "doc_with [(''embedding'', pointer_vector)]"]
      u p
    by (simp add: sample_mismatches sample_schema_fields sample_validations)
qed

text \<open>
  Claim C7 as stated fails: against the declared dimension 2, a vector of three
  elements whose \<open>Dim\<close> is 2 passes validation, and a vector of two elements whose
  \<open>Dim\<close> is 3 is refused.
\<close>

theorem WriteDocument_vector_length_counterexample:
  "type_or_length_mismatch sample_schema (doc_with [(''embedding'', VectorValue [1, 2, 3] 2)]) \<and>
   ValidateDocument sample_schema (doc_with [(''embedding'', VectorValue [1, 2, 3] 2)]) = None \<and>
   \<not> (\<exists>e. IndexManager_WriteDocument brace_codec (sample_manager [good_segment]) 1000 2000 [''1'']
            (doc_with [(''embedding'', VectorValue [1, 2, 3] 2)]) = Inl e \<and> is_SchemaValidation e) \<and>
   \<not> type_or_length_mismatch sample_schema (doc_with [(''embedding'', VectorValue [1, 2] 3)]) \<and>
   IndexManager_WriteDocument brace_codec (sample_manager [good_segment]) 1000 2000 [''1'']
       (doc_with [(''embedding'', VectorValue [1, 2] 3)])
     = Inl (Wrapped ''schema validation failed''
              (SchemaValidationError ''embedding'' [] [] ''vector dimension mismatch''))"
proof -
  have "IndexManager_WriteDocument brace_codec (sample_manager [good_segment]) 1000 2000 [''1'']
       (doc_with [(''embedding'', VectorValue [1, 2] 3)])
     = Inl (Wrapped ''schema validation failed''
              (SchemaValidationError ''embedding'' [] [] ''vector dimension mismatch''))"
    by (simp add: IndexManager_WriteDocument_def sample_validations)
  then show ?thesis
    by (simp add: WriteDocument_schema_error_iff sample_mismatches sample_length_mismatches
        sample_validations)
qed

end
